theory Spec2Isabelle
  imports Complex_Main "HOL-Library.Monad_Syntax"
begin

section \<open>The request route: rate limiter and response cache\<close>

text \<open>
  The route module keeps two process-wide services, a token-bucket rate limiter and an
  LRU cache with a time-to-live. Both read the clock with \<^verbatim>\<open>Date.now()\<close>; in the
  model the reading is the argument \<open>now\<close> of each method (milliseconds, an integer).
  JavaScript numbers that hold token counts are modelled as rationals: the arithmetic
  is the exact one, which coincides with the double arithmetic wherever all values
  are integers at most \<open>10\<close> (as in the back-to-back scenario below).
\<close>

subsection \<open>TokenBucketRateLimiter\<close>

record bucket =
  tokens :: rat
  lastRefill :: int

record TokenBucketRateLimiter =
  buckets :: "string \<rightharpoonup> bucket"
  maxTokens :: rat
  refillRate :: rat
  refillInterval :: int

definition new_TokenBucketRateLimiter :: "rat \<Rightarrow> int \<Rightarrow> TokenBucketRateLimiter" where
  "new_TokenBucketRateLimiter maxTokens' refillIntervalMs =
     \<lparr> buckets = Map.empty,
       maxTokens = maxTokens',
       refillRate = maxTokens' / of_int refillIntervalMs,
       refillInterval = refillIntervalMs \<rparr>"

definition consume :: "TokenBucketRateLimiter \<Rightarrow> int \<Rightarrow> string \<Rightarrow> bool \<times> TokenBucketRateLimiter" where
  "consume rl now ip =
     (let bucket0 = (case buckets rl ip of
                       Some b \<Rightarrow> b
                     | None \<Rightarrow> \<lparr> tokens = maxTokens rl, lastRefill = now \<rparr>);
          timePassed = now - lastRefill bucket0;
          tokensToAdd = of_int timePassed * refillRate rl;
          bucket1 = bucket0 \<lparr> tokens := min (maxTokens rl) (tokens bucket0 + tokensToAdd),
                             lastRefill := now \<rparr>
      in if tokens bucket1 \<ge> 1
         then (True, rl \<lparr> buckets := (buckets rl)(ip \<mapsto> bucket1 \<lparr> tokens := tokens bucket1 - 1 \<rparr>) \<rparr>)
         else (False, rl \<lparr> buckets := (buckets rl)(ip \<mapsto> bucket1) \<rparr>))"

definition getRemainingTokens :: "TokenBucketRateLimiter \<Rightarrow> int \<Rightarrow> string \<Rightarrow> rat" where
  "getRemainingTokens rl now ip =
     (case buckets rl ip of
        None \<Rightarrow> maxTokens rl
      | Some b \<Rightarrow>
          (let timePassed = now - lastRefill b;
               tokensToAdd = of_int timePassed * refillRate rl
           in min (maxTokens rl) (tokens b + tokensToAdd)))"

text \<open>The limiter the route creates: 10 tokens per 10 minutes.\<close>

definition rateLimiter :: TokenBucketRateLimiter where
  "rateLimiter = new_TokenBucketRateLimiter 10 (10 * 60 * 1000)"

text \<open>A series of \<open>consume\<close> calls of one identity, each with its clock reading; the
  answers are collected in call order.\<close>

fun consume_calls :: "TokenBucketRateLimiter \<Rightarrow> string \<Rightarrow> int list \<Rightarrow> bool list \<times> TokenBucketRateLimiter" where
  "consume_calls rl ip [] = ([], rl)"
| "consume_calls rl ip (now # ts) =
     (let (ok, rl') = consume rl now ip;
          (oks, rl'') = consume_calls rl' ip ts
      in (ok # oks, rl''))"

subsection \<open>LRUCache\<close>

text \<open>
  A JavaScript \<^verbatim>\<open>Map\<close> iterates in insertion order, and the cache relies on it: the
  map is an association list, oldest entry first. \<^verbatim>\<open>Map.set\<close> overwrites the value of
  a key that is present where it stands and appends a new key at the end.
\<close>

type_synonym ('k, 'v) js_map = "('k \<times> 'v) list"

definition Map_get :: "('k, 'v) js_map \<Rightarrow> 'k \<Rightarrow> 'v option" where
  "Map_get m k = map_of m k"

definition Map_delete :: "('k, 'v) js_map \<Rightarrow> 'k \<Rightarrow> ('k, 'v) js_map" where
  "Map_delete m k = filter (\<lambda>kv. fst kv \<noteq> k) m"

fun Map_set :: "('k, 'v) js_map \<Rightarrow> 'k \<Rightarrow> 'v \<Rightarrow> ('k, 'v) js_map" where
  "Map_set [] k v = [(k, v)]"
| "Map_set ((k', v') # m) k v = (if k' = k then (k, v) # m else (k', v') # Map_set m k v)"

definition Map_keys :: "('k, 'v) js_map \<Rightarrow> 'k list" where
  "Map_keys m = map fst m"

definition Map_size :: "('k, 'v) js_map \<Rightarrow> nat" where
  "Map_size m = length m"

record 'v cache_item =
  val :: 'v
  timestamp :: int

record ('k, 'v) LRUCache =
  capacity :: nat
  cache :: "('k, 'v cache_item) js_map"
  ttl :: int

definition new_LRUCache :: "nat \<Rightarrow> int \<Rightarrow> ('k, 'v) LRUCache" where
  "new_LRUCache capacity' ttlHours =
     \<lparr> capacity = capacity', cache = [], ttl = ttlHours * 60 * 60 * 1000 \<rparr>"

definition lru_get :: "('k, 'v) LRUCache \<Rightarrow> int \<Rightarrow> 'k \<Rightarrow> 'v option \<times> ('k, 'v) LRUCache" where
  "lru_get c now key =
     (case Map_get (cache c) key of
        None \<Rightarrow> (None, c)
      | Some item \<Rightarrow>
          if now - timestamp item > ttl c
          then (None, c \<lparr> cache := Map_delete (cache c) key \<rparr>)
          else (Some (val item), c \<lparr> cache := Map_set (Map_delete (cache c) key) key item \<rparr>))"

definition lru_set :: "('k, 'v) LRUCache \<Rightarrow> int \<Rightarrow> 'k \<Rightarrow> 'v \<Rightarrow> ('k, 'v) LRUCache" where
  "lru_set c now key v =
     (let m1 = Map_delete (cache c) key;
          m2 = (if Map_size m1 \<ge> capacity c
                then (case Map_keys m1 of
                        [] \<Rightarrow> m1
                      | firstKey # _ \<Rightarrow> Map_delete m1 firstKey)
                else m1)
      in c \<lparr> cache := Map_set m2 key \<lparr> val = v, timestamp = now \<rparr> \<rparr>)"

definition lru_size :: "('k, 'v) LRUCache \<Rightarrow> nat" where
  "lru_size c = Map_size (cache c)"

text \<open>Any sequence of cache operations, each with the clock reading of its call.\<close>

datatype ('k, 'v) cache_op = Get 'k int | Put 'k 'v int

fun apply_cache_op :: "('k, 'v) LRUCache \<Rightarrow> ('k, 'v) cache_op \<Rightarrow> ('k, 'v) LRUCache" where
  "apply_cache_op c (Get k now) = snd (lru_get c now k)"
| "apply_cache_op c (Put k v now) = lru_set c now k v"

fun run_cache_ops :: "('k, 'v) LRUCache \<Rightarrow> ('k, 'v) cache_op list \<Rightarrow> ('k, 'v) LRUCache" where
  "run_cache_ops c [] = c"
| "run_cache_ops c (op # ops) = run_cache_ops (apply_cache_op c op) ops"

text \<open>Inserting a list of keys one after the other (value and clock reading per key).\<close>

fun insert_all :: "('k, 'v) LRUCache \<Rightarrow> ('k \<times> 'v \<times> int) list \<Rightarrow> ('k, 'v) LRUCache" where
  "insert_all c [] = c"
| "insert_all c ((k, v, now) # kvs) = insert_all (lru_set c now k v) kvs"

text \<open>The entries \<open>set\<close> keeps before it appends the new one: the map without the key,
  and without its first key when it is still at capacity.\<close>

definition survivors :: "('k, 'v) LRUCache \<Rightarrow> 'k \<Rightarrow> ('k, 'v cache_item) js_map" where
  "survivors c key =
     (let m1 = Map_delete (cache c) key
      in if Map_size m1 \<ge> capacity c
         then (case Map_keys m1 of [] \<Rightarrow> m1 | firstKey # _ \<Rightarrow> Map_delete m1 firstKey)
         else m1)"

section \<open>JavaScript values, strings and errors\<close>

text \<open>
  The program is TypeScript, whose types are erased when it runs: what
  \<^verbatim>\<open>JSON.parse\<close> returns is an arbitrary value, and the orchestrator hands it to
  \<^verbatim>\<open>clampAnswer\<close> before any validation. Values of type \<^verbatim>\<open>any\<close> are therefore
  modelled as they are at run time. An object is the list of its own properties in
  insertion order. A \<open>string\<close> stands for a JavaScript string with one \<open>char\<close> per
  code unit (code units up to 255); lengths are lengths in code units, as
  \<^verbatim>\<open>.length\<close> and \<^verbatim>\<open>.substring\<close> count them. Numbers are rationals.
\<close>

datatype jsval =
    JUndefined
  | JNull
  | JBool bool
  | JNum rat
  | JStr string
  | JArr "jsval list"
  | JObj "(string \<times> jsval) list"

datatype issue_code = invalid_type | too_small | too_big | invalid_string | invalid_enum_value | custom

datatype path_elem = Key string | Idx nat

datatype zod_issue = Issue (code: issue_code) (at_path: "path_elem list")

text \<open>What the code can throw: the built-in errors, the validation library's error with
  its issues, and \<^verbatim>\<open>new Error(message)\<close>.\<close>

datatype js_error = TypeError | SyntaxError | AbortError | ZodError "zod_issue list" | Error string

subsection \<open>Sequencing computations that may throw\<close>

definition bindE :: "js_error + 'a \<Rightarrow> ('a \<Rightarrow> js_error + 'b) \<Rightarrow> js_error + 'b" where
  "bindE m f = (case m of Inl e \<Rightarrow> Inl e | Inr x \<Rightarrow> f x)"

fun mapE :: "('a \<Rightarrow> js_error + 'b) \<Rightarrow> 'a list \<Rightarrow> js_error + 'b list" where
  "mapE f [] = Inr []"
| "mapE f (x # xs) = bindE (f x) (\<lambda>y. bindE (mapE f xs) (\<lambda>ys. Inr (y # ys)))"

subsection \<open>Property access, optional chaining, methods of untyped values\<close>

text \<open>\<open>js_prop x k\<close> is \<^verbatim>\<open>x.k\<close> for a value that is neither \<^verbatim>\<open>null\<close> nor
  \<^verbatim>\<open>undefined\<close>: the own property of an object, \<^verbatim>\<open>undefined\<close> otherwise (none of the
  keys the program reads is a built-in property of a string, array, number or boolean).
  \<open>js_get\<close> adds the TypeError of reading a property of \<^verbatim>\<open>null\<close> or \<^verbatim>\<open>undefined\<close>.\<close>

definition js_prop :: "jsval \<Rightarrow> string \<Rightarrow> jsval" where
  "js_prop x k = (case x of
                 JObj kvs \<Rightarrow> (case map_of kvs k of Some v \<Rightarrow> v | None \<Rightarrow> JUndefined)
               | _ \<Rightarrow> JUndefined)"

definition js_get :: "jsval \<Rightarrow> string \<Rightarrow> js_error + jsval" where
  "js_get x k = (case x of
                   JUndefined \<Rightarrow> Inl TypeError
                 | JNull \<Rightarrow> Inl TypeError
                 | _ \<Rightarrow> Inr (js_prop x k))"

text \<open>\<^verbatim>\<open>x.substring(0, n)\<close>: defined on strings only; on anything else the method is
  missing and the call throws a TypeError.\<close>

definition js_substring :: "nat \<Rightarrow> jsval \<Rightarrow> js_error + jsval" where
  "js_substring n x = (case x of JStr s \<Rightarrow> Inr (JStr (take n s)) | _ \<Rightarrow> Inl TypeError)"

text \<open>\<^verbatim>\<open>x.map(f)\<close>: defined on arrays only.\<close>

definition js_map :: "(jsval \<Rightarrow> js_error + jsval) \<Rightarrow> jsval \<Rightarrow> js_error + jsval" where
  "js_map f x = (case x of
                   JArr xs \<Rightarrow> bindE (mapE f xs) (\<lambda>ys. Inr (JArr ys))
                 | _ \<Rightarrow> Inl TypeError)"

text \<open>\<^verbatim>\<open>x?.map(f)\<close>: \<^verbatim>\<open>undefined\<close> when \<open>x\<close> is \<^verbatim>\<open>null\<close> or \<^verbatim>\<open>undefined\<close>.\<close>

definition js_opt_map :: "(jsval \<Rightarrow> js_error + jsval) \<Rightarrow> jsval \<Rightarrow> js_error + jsval" where
  "js_opt_map f x = (case x of
                       JUndefined \<Rightarrow> Inr JUndefined
                     | JNull \<Rightarrow> Inr JUndefined
                     | _ \<Rightarrow> js_map f x)"

text \<open>The own properties an object spread \<^verbatim>\<open>{...x}\<close> copies. A spread of a string or an
  array would copy its indices; on every such argument the property reads that follow
  in \<^verbatim>\<open>clampAnswer\<close> throw, so those copies are never observed and are left out.\<close>

definition js_spread :: "jsval \<Rightarrow> (string \<times> jsval) list" where
  "js_spread x = (case x of JObj kvs \<Rightarrow> kvs | _ \<Rightarrow> [])"

text \<open>Writing a property in an object literal or by assignment: an existing key keeps
  its place, a new key is appended.\<close>

definition with_prop :: "(string \<times> jsval) list \<Rightarrow> string \<Rightarrow> jsval \<Rightarrow> (string \<times> jsval) list" where
  "with_prop kvs k v = Map_set kvs k v"

text \<open>The elements of an array-valued property (none when it is not an array), and the
  characters of a string value.\<close>

definition elems :: "jsval \<Rightarrow> jsval list" where
  "elems x = (case x of JArr xs \<Rightarrow> xs | _ \<Rightarrow> [])"

definition str_of :: "jsval \<Rightarrow> string option" where
  "str_of x = (case x of JStr s \<Rightarrow> Some s | _ \<Rightarrow> None)"

subsection \<open>String functions\<close>

text \<open>White space as \<^verbatim>\<open>\s\<close> and \<^verbatim>\<open>trim\<close> see it, among the code units up to 255.\<close>

definition js_space :: "char \<Rightarrow> bool" where
  "js_space c = (of_char c \<in> {9, 10, 11, 12, 13, 32, 160 :: nat})"

definition js_trim :: "string \<Rightarrow> string" where
  "js_trim s = rev (dropWhile js_space (rev (dropWhile js_space s)))"

definition startsWith :: "string \<Rightarrow> string \<Rightarrow> bool" where
  "startsWith s p = (take (length p) s = p)"

definition toLowerCase :: "string \<Rightarrow> string" where
  "toLowerCase s = map (\<lambda>c. if 65 \<le> (of_char c :: nat) \<and> (of_char c :: nat) \<le> 90
                              then char_of (of_char c + 32 :: nat) else c) s"

text \<open>\<^verbatim>\<open>s.split(c)\<close> for a one-character separator: never empty, \<^verbatim>\<open>"".split(".")\<close> is
  \<^verbatim>\<open>[""]\<close>.\<close>

fun js_split :: "char \<Rightarrow> string \<Rightarrow> string list" where
  "js_split c [] = [[]]"
| "js_split c (x # xs) =
     (if x = c then [] # js_split c xs
      else (case js_split c xs of
              p # ps \<Rightarrow> (x # p) # ps
            | [] \<Rightarrow> [[x]]))"

fun js_join :: "string \<Rightarrow> string list \<Rightarrow> string" where
  "js_join sep [] = []"
| "js_join sep [p] = p"
| "js_join sep (p # q # ps) = p @ sep @ js_join sep (q # ps)"

text \<open>\<^verbatim>\<open>xs.slice(-n)\<close>: the last \<open>n\<close> elements, all of them when there are fewer.\<close>

definition slice_last :: "nat \<Rightarrow> 'a list \<Rightarrow> 'a list" where
  "slice_last n xs = drop (length xs - n) xs"

text \<open>A \<^verbatim>\<open>Set\<close> of strings, in insertion order.\<close>

definition Set_add :: "string list \<Rightarrow> string \<Rightarrow> string list" where
  "Set_add s x = (if x \<in> set s then s else s @ [x])"

definition Set_size :: "string list \<Rightarrow> nat" where
  "Set_size s = length s"

section \<open>The answer contract\<close>

subsection \<open>The typed answer\<close>

text \<open>
  The type \<^verbatim>\<open>Answer\<close> that the schema infers. Field names are the source's, except
  where two objects share a name (\<^verbatim>\<open>title\<close>) or the name is a keyword here
  (\<^verbatim>\<open>if\<close>, \<^verbatim>\<open>then\<close>).
\<close>

datatype os = Windows | macOS | Android | iOS | ChromeOS | Linux

record step =
  step_title :: string
  detail :: string
  os :: "os list"
  est_minutes :: "rat option"
  shell :: "string list option"

record decision =
  dt_if :: string
  dt_then :: string
  link_step :: "rat option"

record diagram =
  caption :: string
  svg :: string

record citation =
  url :: string
  citation_title :: string
  quote :: string

record answer =
  answer_title :: string
  one_paragraph_summary :: string
  prereqs :: "string list"
  steps :: "step list"
  decision_tree :: "decision list"
  diagrams :: "diagram list"
  citations :: "citation list"
  warnings :: "string list"

text \<open>
  \<^verbatim>\<open>new URL(s)\<close> belongs to the platform, not to the repository: it is a parameter,
  \<open>Some hostname\<close> when \<open>s\<close> parses as a URL and \<open>None\<close> when the constructor throws.
\<close>

type_synonym url_parser = "string \<Rightarrow> string option"

subsection \<open>The schema\<close>

text \<open>
  A schema parses an untyped value into a typed one or reports issues, each with a code
  and the path of the offending value. A parse visits every field and collects all
  issues; unknown keys are dropped.
\<close>

type_synonym path = "path_elem list"
type_synonym 'a parsed = "zod_issue list + 'a"

definition issues_of :: "'a parsed \<Rightarrow> zod_issue list" where
  "issues_of r = (case r of Inl is \<Rightarrow> is | Inr _ \<Rightarrow> [])"

definition z_both :: "'a parsed \<Rightarrow> 'b parsed \<Rightarrow> ('a \<times> 'b) parsed" where
  "z_both r1 r2 = (case r1 of
                     Inr a \<Rightarrow> (case r2 of Inr b \<Rightarrow> Inr (a, b) | Inl is2 \<Rightarrow> Inl is2)
                   | Inl is1 \<Rightarrow> Inl (is1 @ issues_of r2))"

definition z_map :: "('a \<Rightarrow> 'b) \<Rightarrow> 'a parsed \<Rightarrow> 'b parsed" where
  "z_map f r = (case r of Inl is \<Rightarrow> Inl is | Inr a \<Rightarrow> Inr (f a))"

text \<open>\<^verbatim>\<open>z.string()\<close> with its checks, each a function that names the issue it raises.\<close>

definition z_string :: "(string \<Rightarrow> issue_code option) list \<Rightarrow> path \<Rightarrow> jsval \<Rightarrow> string parsed" where
  "z_string checks p v =
     (case v of
        JStr s \<Rightarrow> (case List.map_filter (\<lambda>c. c s) checks of
                     [] \<Rightarrow> Inr s
                   | codes \<Rightarrow> Inl (map (\<lambda>c. Issue c p) codes))
      | _ \<Rightarrow> Inl [Issue invalid_type p])"

definition str_min :: "nat \<Rightarrow> string \<Rightarrow> issue_code option" where
  "str_min n s = (if length s < n then Some too_small else None)"

definition str_max :: "nat \<Rightarrow> string \<Rightarrow> issue_code option" where
  "str_max n s = (if length s > n then Some too_big else None)"

definition str_url :: "url_parser \<Rightarrow> string \<Rightarrow> issue_code option" where
  "str_url U s = (case U s of None \<Rightarrow> Some invalid_string | Some _ \<Rightarrow> None)"

definition str_refine :: "(string \<Rightarrow> bool) \<Rightarrow> string \<Rightarrow> issue_code option" where
  "str_refine P s = (if P s then None else Some custom)"

text \<open>\<^verbatim>\<open>z.number()\<close> with its checks.\<close>

definition z_number :: "(rat \<Rightarrow> issue_code option) list \<Rightarrow> path \<Rightarrow> jsval \<Rightarrow> rat parsed" where
  "z_number checks p v =
     (case v of
        JNum n \<Rightarrow> (case List.map_filter (\<lambda>c. c n) checks of
                     [] \<Rightarrow> Inr n
                   | codes \<Rightarrow> Inl (map (\<lambda>c. Issue c p) codes))
      | _ \<Rightarrow> Inl [Issue invalid_type p])"

definition num_positive :: "rat \<Rightarrow> issue_code option" where
  "num_positive n = (if n > 0 then None else Some too_small)"

definition num_int :: "rat \<Rightarrow> issue_code option" where
  "num_int n = (if n = of_int \<lfloor>n\<rfloor> then None else Some invalid_type)"

text \<open>\<^verbatim>\<open>z.array(item)\<close> with optional \<^verbatim>\<open>min\<close> and \<^verbatim>\<open>max\<close>: the issues of the array
  itself come first, then those of its elements, each under its index.\<close>

fun z_items :: "(path \<Rightarrow> jsval \<Rightarrow> 'a parsed) \<Rightarrow> path \<Rightarrow> nat \<Rightarrow> jsval list \<Rightarrow> 'a list parsed" where
  "z_items item p i [] = Inr []"
| "z_items item p i (x # xs) =
     z_map (\<lambda>(y, ys). y # ys) (z_both (item (p @ [Idx i]) x) (z_items item p (Suc i) xs))"

definition z_array :: "(path \<Rightarrow> jsval \<Rightarrow> 'a parsed) \<Rightarrow> nat \<Rightarrow> nat option \<Rightarrow> path \<Rightarrow> jsval \<Rightarrow> 'a list parsed" where
  "z_array item lo hi p v =
     (case v of
        JArr xs \<Rightarrow>
          (let own = (if length xs < lo then [Issue too_small p] else [])
                   @ (case hi of Some h \<Rightarrow> if length xs > h then [Issue too_big p] else [] | None \<Rightarrow> [])
           in case z_items item p 0 xs of
                Inr ys \<Rightarrow> if own = [] then Inr ys else Inl own
              | Inl is \<Rightarrow> Inl (own @ is))
      | _ \<Rightarrow> Inl [Issue invalid_type p])"

text \<open>\<^verbatim>\<open>.optional()\<close> and \<^verbatim>\<open>.default([])\<close>: both act on \<^verbatim>\<open>undefined\<close> only.\<close>

definition z_optional :: "(path \<Rightarrow> jsval \<Rightarrow> 'a parsed) \<Rightarrow> path \<Rightarrow> jsval \<Rightarrow> 'a option parsed" where
  "z_optional schema p v = (case v of JUndefined \<Rightarrow> Inr None | _ \<Rightarrow> z_map Some (schema p v))"

definition z_default :: "'a \<Rightarrow> (path \<Rightarrow> jsval \<Rightarrow> 'a parsed) \<Rightarrow> path \<Rightarrow> jsval \<Rightarrow> 'a parsed" where
  "z_default d schema p v = (case v of JUndefined \<Rightarrow> Inr d | _ \<Rightarrow> schema p v)"

text \<open>The field \<open>k\<close> of an object under validation, parsed under the path extended by
  \<open>k\<close>.\<close>

definition z_field :: "(path \<Rightarrow> jsval \<Rightarrow> 'a parsed) \<Rightarrow> path \<Rightarrow> jsval \<Rightarrow> string \<Rightarrow> 'a parsed" where
  "z_field schema p v k = schema (p @ [Key k]) (js_prop v k)"

definition is_object :: "jsval \<Rightarrow> bool" where
  "is_object v = (case v of JObj _ \<Rightarrow> True | _ \<Rightarrow> False)"

definition os_of_string :: "string \<Rightarrow> os option" where
  "os_of_string s =
     (if s = ''Windows'' then Some Windows
      else if s = ''macOS'' then Some macOS
      else if s = ''Android'' then Some Android
      else if s = ''iOS'' then Some iOS
      else if s = ''ChromeOS'' then Some ChromeOS
      else if s = ''Linux'' then Some Linux
      else None)"

definition z_os :: "path \<Rightarrow> jsval \<Rightarrow> os parsed" where
  "z_os p v =
     (case v of
        JStr s \<Rightarrow> (case os_of_string s of Some x \<Rightarrow> Inr x | None \<Rightarrow> Inl [Issue invalid_enum_value p])
      | _ \<Rightarrow> Inl [Issue invalid_type p])"

definition StepSchema :: "path \<Rightarrow> jsval \<Rightarrow> step parsed" where
  "StepSchema p v =
     (if \<not> is_object v then Inl [Issue invalid_type p]
      else z_map (\<lambda>(t, d, o', e, s).
                    \<lparr> step_title = t, detail = d, os = o', est_minutes = e, shell = s \<rparr>)
            (z_both (z_field (z_string [str_min 1]) p v ''title'')
            (z_both (z_field (z_string [str_min 1]) p v ''detail'')
            (z_both (z_field (z_array z_os 1 None) p v ''os'')
            (z_both (z_field (z_optional (z_number [num_positive])) p v ''est_minutes'')
                    (z_field (z_optional (z_array (z_string []) 0 None)) p v ''shell''))))))"

definition DecisionTreeSchema :: "path \<Rightarrow> jsval \<Rightarrow> decision parsed" where
  "DecisionTreeSchema p v =
     (if \<not> is_object v then Inl [Issue invalid_type p]
      else z_map (\<lambda>(i, t, l). \<lparr> dt_if = i, dt_then = t, link_step = l \<rparr>)
            (z_both (z_field (z_string [str_min 1]) p v ''if'')
            (z_both (z_field (z_string [str_min 1]) p v ''then'')
                    (z_field (z_optional (z_number [num_int, num_positive])) p v ''link_step''))))"

definition DiagramSchema :: "path \<Rightarrow> jsval \<Rightarrow> diagram parsed" where
  "DiagramSchema p v =
     (if \<not> is_object v then Inl [Issue invalid_type p]
      else z_map (\<lambda>(c, s). \<lparr> caption = c, svg = s \<rparr>)
            (z_both (z_field (z_string [str_min 1]) p v ''caption'')
                    (z_field (z_string [str_min 1, str_refine (\<lambda>svg. startsWith (js_trim svg) ''<svg'')])
                       p v ''svg'')))"

definition CitationSchema :: "url_parser \<Rightarrow> path \<Rightarrow> jsval \<Rightarrow> citation parsed" where
  "CitationSchema U p v =
     (if \<not> is_object v then Inl [Issue invalid_type p]
      else z_map (\<lambda>(u, t, q). \<lparr> url = u, citation_title = t, quote = q \<rparr>)
            (z_both (z_field (z_string [str_url U]) p v ''url'')
            (z_both (z_field (z_string [str_min 1]) p v ''title'')
                    (z_field (z_string [str_max 180]) p v ''quote''))))"

definition AnswerSchema :: "url_parser \<Rightarrow> path \<Rightarrow> jsval \<Rightarrow> answer parsed" where
  "AnswerSchema U p v =
     (if \<not> is_object v then Inl [Issue invalid_type p]
      else z_map (\<lambda>(t, s, pr, st, dt, dg, ci, w).
                    \<lparr> answer_title = t, one_paragraph_summary = s, prereqs = pr, steps = st,
                      decision_tree = dt, diagrams = dg, citations = ci, warnings = w \<rparr>)
            (z_both (z_field (z_string [str_min 1]) p v ''answer_title'')
            (z_both (z_field (z_string [str_min 1]) p v ''one_paragraph_summary'')
            (z_both (z_field (z_default [] (z_array (z_string []) 0 None)) p v ''prereqs'')
            (z_both (z_field (z_array StepSchema 1 None) p v ''steps'')
            (z_both (z_field (z_default [] (z_array DecisionTreeSchema 0 None)) p v ''decision_tree'')
            (z_both (z_field (z_default [] (z_array DiagramSchema 0 None)) p v ''diagrams'')
            (z_both (z_field (z_array (CitationSchema U) 2 (Some 5)) p v ''citations'')
                    (z_field (z_default [] (z_array (z_string []) 0 None)) p v ''warnings'')))))))))"

text \<open>\<^verbatim>\<open>safeParseAnswer\<close> returns the outcome, \<^verbatim>\<open>validateAnswer\<close> throws the issues.\<close>

definition safeParseAnswer :: "url_parser \<Rightarrow> jsval \<Rightarrow> answer parsed" where
  "safeParseAnswer U data = AnswerSchema U [] data"

definition validateAnswer :: "url_parser \<Rightarrow> jsval \<Rightarrow> js_error + answer" where
  "validateAnswer U data = (case AnswerSchema U [] data of Inl is \<Rightarrow> Inl (ZodError is) | Inr a \<Rightarrow> Inr a)"

subsection \<open>Typed answers as run-time values\<close>

text \<open>A typed answer is an object at run time; these functions give the object, with an
  optional field that is absent left out.\<close>

definition os_name :: "os \<Rightarrow> string" where
  "os_name x = (case x of Windows \<Rightarrow> ''Windows'' | macOS \<Rightarrow> ''macOS'' | Android \<Rightarrow> ''Android''
                | iOS \<Rightarrow> ''iOS'' | ChromeOS \<Rightarrow> ''ChromeOS'' | Linux \<Rightarrow> ''Linux'')"

definition opt_field :: "string \<Rightarrow> ('a \<Rightarrow> jsval) \<Rightarrow> 'a option \<Rightarrow> (string \<times> jsval) list" where
  "opt_field k f x = (case x of None \<Rightarrow> [] | Some y \<Rightarrow> [(k, f y)])"

definition step_value :: "step \<Rightarrow> jsval" where
  "step_value s = JObj ([(''title'', JStr (step_title s)), (''detail'', JStr (detail s)),
                         (''os'', JArr (map (\<lambda>x. JStr (os_name x)) (os s)))]
                        @ opt_field ''est_minutes'' JNum (est_minutes s)
                        @ opt_field ''shell'' (\<lambda>xs. JArr (map JStr xs)) (shell s))"

definition decision_value :: "decision \<Rightarrow> jsval" where
  "decision_value d = JObj ([(''if'', JStr (dt_if d)), (''then'', JStr (dt_then d))]
                            @ opt_field ''link_step'' JNum (link_step d))"

definition diagram_value :: "diagram \<Rightarrow> jsval" where
  "diagram_value d = JObj [(''caption'', JStr (caption d)), (''svg'', JStr (svg d))]"

definition citation_value :: "citation \<Rightarrow> jsval" where
  "citation_value c = JObj [(''url'', JStr (url c)), (''title'', JStr (citation_title c)),
                            (''quote'', JStr (quote c))]"

definition answer_value :: "answer \<Rightarrow> jsval" where
  "answer_value a =
     JObj [(''answer_title'', JStr (answer_title a)),
           (''one_paragraph_summary'', JStr (one_paragraph_summary a)),
           (''prereqs'', JArr (map JStr (prereqs a))),
           (''steps'', JArr (map step_value (steps a))),
           (''decision_tree'', JArr (map decision_value (decision_tree a))),
           (''diagrams'', JArr (map diagram_value (diagrams a))),
           (''citations'', JArr (map citation_value (citations a))),
           (''warnings'', JArr (map JStr (warnings a)))]"

subsection \<open>distinctDomainsOK\<close>

text \<open>One turn of the loop over the citations: the constructor's failure is caught and
  the citation skipped; otherwise the lower-cased hostname is split at the dots and its
  last two parts (or the whole hostname when it has a single part) join the set.\<close>

definition add_domain :: "url_parser \<Rightarrow> string list \<Rightarrow> citation \<Rightarrow> string list" where
  "add_domain U domains c =
     (case U (url c) of
        None \<Rightarrow> domains
      | Some h \<Rightarrow>
          (let hostname = toLowerCase h;
               parts = js_split CHR ''.'' hostname
           in if length parts \<ge> 2
              then Set_add domains (js_join ''.'' (slice_last 2 parts))
              else Set_add domains hostname))"

definition distinctDomainsOK :: "url_parser \<Rightarrow> citation list \<Rightarrow> bool" where
  "distinctDomainsOK U cs =
     (if length cs < 2 then False
      else Set_size (foldl (add_domain U) [] cs) \<ge> 2)"

text \<open>The specification's notion: the registrable domain of a hostname is its last two
  dot-separated labels (hostnames are case-insensitive and taken in lower case); the
  domains of a citation list are those of the citations whose URL parses.\<close>

definition registrable_domain :: "string \<Rightarrow> string" where
  "registrable_domain h = js_join ''.'' (slice_last 2 (js_split CHR ''.'' (toLowerCase h)))"

definition registrable_domains :: "url_parser \<Rightarrow> citation list \<Rightarrow> string set" where
  "registrable_domains U cs = {registrable_domain h | h c. c \<in> set cs \<and> U (url c) = Some h}"

subsection \<open>clampAnswer\<close>

text \<open>
  \<^verbatim>\<open>clampAnswer\<close> is declared on \<^verbatim>\<open>Answer\<close> but also runs on what \<^verbatim>\<open>JSON.parse\<close>
  returned, so it is modelled on untyped values: every property read, \<^verbatim>\<open>substring\<close>
  and \<^verbatim>\<open>map\<close> is the run-time operation and may throw. Each object literal spreads its
  argument and then writes the listed properties, in the source's order.
\<close>

definition clampStep :: "jsval \<Rightarrow> js_error + jsval" where
  "clampStep step' =
     bindE (bindE (js_get step' ''title'') (js_substring 150)) (\<lambda>title.
     bindE (bindE (js_get step' ''detail'') (js_substring 800)) (\<lambda>detail'.
     bindE (bindE (js_get step' ''shell'') (js_opt_map (js_substring 200))) (\<lambda>shell'.
     Inr (JObj (with_prop (with_prop (with_prop (js_spread step')
                  ''title'' title) ''detail'' detail') ''shell'' shell')))))"

definition clampDecision :: "jsval \<Rightarrow> js_error + jsval" where
  "clampDecision dt =
     bindE (bindE (js_get dt ''if'') (js_substring 200)) (\<lambda>if'.
     bindE (bindE (js_get dt ''then'') (js_substring 300)) (\<lambda>then'.
     Inr (JObj (with_prop (with_prop (js_spread dt) ''if'' if') ''then'' then'))))"

definition clampDiagram :: "jsval \<Rightarrow> js_error + jsval" where
  "clampDiagram d =
     bindE (bindE (js_get d ''caption'') (js_substring 200)) (\<lambda>caption'.
     bindE (bindE (js_get d ''svg'') (js_substring 10000)) (\<lambda>svg'.
     Inr (JObj (with_prop (with_prop (js_spread d) ''caption'' caption') ''svg'' svg'))))"

definition clampCitation :: "jsval \<Rightarrow> js_error + jsval" where
  "clampCitation c =
     bindE (bindE (js_get c ''title'') (js_substring 200)) (\<lambda>title.
     bindE (bindE (js_get c ''quote'') (js_substring 180)) (\<lambda>quote'.
     Inr (JObj (with_prop (with_prop (js_spread c) ''title'' title) ''quote'' quote'))))"

definition clampAnswer :: "jsval \<Rightarrow> js_error + jsval" where
  "clampAnswer a =
     bindE (bindE (js_get a ''answer_title'') (js_substring 200)) (\<lambda>answer_title'.
     bindE (bindE (js_get a ''one_paragraph_summary'') (js_substring 1000)) (\<lambda>summary'.
     bindE (bindE (js_get a ''prereqs'') (js_map (js_substring 300))) (\<lambda>prereqs'.
     bindE (bindE (js_get a ''steps'') (js_map clampStep)) (\<lambda>steps'.
     bindE (bindE (js_get a ''decision_tree'') (js_map clampDecision)) (\<lambda>decision_tree'.
     bindE (bindE (js_get a ''diagrams'') (js_map clampDiagram)) (\<lambda>diagrams'.
     bindE (bindE (js_get a ''citations'') (js_map clampCitation)) (\<lambda>citations'.
     bindE (bindE (js_get a ''warnings'') (js_map (js_substring 300))) (\<lambda>warnings'.
     Inr (JObj (with_prop (with_prop (with_prop (with_prop (with_prop (with_prop (with_prop (with_prop
                  (js_spread a)
                  ''answer_title'' answer_title')
                  ''one_paragraph_summary'' summary')
                  ''prereqs'' prereqs')
                  ''steps'' steps')
                  ''decision_tree'' decision_tree')
                  ''diagrams'' diagrams')
                  ''citations'' citations')
                  ''warnings'' warnings'))))))))))"

subsection \<open>Values of type Answer\<close>

text \<open>
  The static type \<^verbatim>\<open>Answer\<close> as a predicate on run-time values: the shape of each
  field and nothing about its content (no count, no length, no URL syntax). Extra
  properties are allowed, as structural typing allows them.
\<close>

definition is_string :: "jsval \<Rightarrow> bool" where
  "is_string v = (case v of JStr _ \<Rightarrow> True | _ \<Rightarrow> False)"

definition is_number :: "jsval \<Rightarrow> bool" where
  "is_number v = (case v of JNum _ \<Rightarrow> True | _ \<Rightarrow> False)"

definition is_array_of :: "(jsval \<Rightarrow> bool) \<Rightarrow> jsval \<Rightarrow> bool" where
  "is_array_of P v = (case v of JArr xs \<Rightarrow> list_all P xs | _ \<Rightarrow> False)"

definition is_optional :: "(jsval \<Rightarrow> bool) \<Rightarrow> jsval \<Rightarrow> bool" where
  "is_optional P v = (v = JUndefined \<or> P v)"

definition is_os :: "jsval \<Rightarrow> bool" where
  "is_os v = (case v of JStr s \<Rightarrow> os_of_string s \<noteq> None | _ \<Rightarrow> False)"

definition is_Step :: "jsval \<Rightarrow> bool" where
  "is_Step v = (is_object v \<and> is_string (js_prop v ''title'') \<and> is_string (js_prop v ''detail'')
                \<and> is_array_of is_os (js_prop v ''os'')
                \<and> is_optional is_number (js_prop v ''est_minutes'')
                \<and> is_optional (is_array_of is_string) (js_prop v ''shell''))"

definition is_Decision :: "jsval \<Rightarrow> bool" where
  "is_Decision v = (is_object v \<and> is_string (js_prop v ''if'') \<and> is_string (js_prop v ''then'')
                    \<and> is_optional is_number (js_prop v ''link_step''))"

definition is_Diagram :: "jsval \<Rightarrow> bool" where
  "is_Diagram v = (is_object v \<and> is_string (js_prop v ''caption'') \<and> is_string (js_prop v ''svg''))"

definition is_Citation :: "jsval \<Rightarrow> bool" where
  "is_Citation v = (is_object v \<and> is_string (js_prop v ''url'') \<and> is_string (js_prop v ''title'')
                    \<and> is_string (js_prop v ''quote''))"

definition is_Answer :: "jsval \<Rightarrow> bool" where
  "is_Answer v = (is_object v
                  \<and> is_string (js_prop v ''answer_title'')
                  \<and> is_string (js_prop v ''one_paragraph_summary'')
                  \<and> is_array_of is_string (js_prop v ''prereqs'')
                  \<and> is_array_of is_Step (js_prop v ''steps'')
                  \<and> is_array_of is_Decision (js_prop v ''decision_tree'')
                  \<and> is_array_of is_Diagram (js_prop v ''diagrams'')
                  \<and> is_array_of is_Citation (js_prop v ''citations'')
                  \<and> is_array_of is_string (js_prop v ''warnings''))"

subsection \<open>What clamping is to achieve\<close>

text \<open>\<open>truncated n old new\<close>: the string \<open>new\<close> is \<open>old\<close> cut to its first \<open>n\<close>
  characters; \<open>elementwise R\<close> relates two arrays of equal length element by
  element; \<open>same_but\<close> compares two objects outside the listed keys.\<close>

definition truncated :: "nat \<Rightarrow> jsval \<Rightarrow> jsval \<Rightarrow> bool" where
  "truncated n old new = (case old of JStr s \<Rightarrow> new = JStr (take n s) | _ \<Rightarrow> False)"

definition same_but :: "string list \<Rightarrow> jsval \<Rightarrow> jsval \<Rightarrow> bool" where
  "same_but ks old new = (is_object old \<and> is_object new \<and> (\<forall>k. k \<notin> set ks \<longrightarrow> js_prop new k = js_prop old k))"

definition elementwise :: "(jsval \<Rightarrow> jsval \<Rightarrow> bool) \<Rightarrow> jsval \<Rightarrow> jsval \<Rightarrow> bool" where
  "elementwise R old new =
     (case old of
        JArr xs \<Rightarrow> (case new of JArr ys \<Rightarrow> list_all2 R xs ys | _ \<Rightarrow> False)
      | _ \<Rightarrow> False)"




text \<open>What clamping does to the optional \<^verbatim>\<open>shell\<close> list of a step: an absent list
  stays absent, a list is truncated element by element.\<close>

definition shell_truncated :: "jsval \<Rightarrow> jsval \<Rightarrow> bool" where
  "shell_truncated old new =
     (((old = JUndefined \<or> old = JNull) \<and> new = JUndefined) \<or> elementwise (truncated 200) old new)"




section \<open>The page-fetch tool\<close>

text \<open>
  \<^verbatim>\<open>fetch_page\<close> calls the network and an HTML library; both are outside the
  repository and are parameters. \<open>http_fetch\<close> is \<^verbatim>\<open>fetch\<close> with the 15-second abort:
  a response, or the error it rejects with (\<open>AbortError\<close> on timeout). \<open>cheerio_load\<close>
  is the import and \<^verbatim>\<open>load\<close> of the HTML library followed by the removal of the
  unwanted elements; of the document it gives what the function reads, the texts of the
  \<^verbatim>\<open>h1\<close>, \<^verbatim>\<open>h2\<close> and \<^verbatim>\<open>h3\<close> elements in document order and the text of the body.
\<close>

record http_response =
  ok :: bool
  status :: nat
  statusText :: string
  response_text :: "js_error + string"





text \<open>\<^verbatim>\<open>s.replace(/P+/g, ' ')\<close> for a character class \<open>P\<close>: every maximal run of
  characters of the class becomes one space.\<close>

function replace_runs :: "(char \<Rightarrow> bool) \<Rightarrow> string \<Rightarrow> string" where
  "replace_runs P [] = []"
| "replace_runs P (c # cs) =
     (if P c then CHR '' '' # replace_runs P (dropWhile P cs)
      else c # replace_runs P cs)"
  by pat_completeness auto
termination
  by (relation "measure (\<lambda>(P, s). length s)") (auto simp: le_imp_less_Suc length_dropWhile_le)

definition newline :: char where
  "newline = CHR 0x0A"






section \<open>The agent orchestrator\<close>

subsection \<open>Conversation and collaborators\<close>

record tool_function =
  fn_name :: string
  fn_arguments :: string

record tool_call =
  call_id :: string
  call_type :: string
  call_function :: "tool_function option"

record assistant_message =
  content :: "string option"
  tool_calls :: "tool_call list option"

datatype message =
    SystemMessage string
  | UserMessage string
  | AssistantMessage assistant_message
  | ToolMessage string string

record chat_request =
  model_name :: string
  req_messages :: "message list"
  with_tools :: bool
  temperature :: rat
  max_tokens :: nat

text \<open>
  What lies outside the repository is a parameter of the orchestrator: the environment
  variable with the API key; the language model (\<open>chat_create\<close> answers a request with
  the message of the first choice, if there is one, or rejects with an error); the three
  tool functions, applied to the untyped arguments the model supplied; \<^verbatim>\<open>JSON.parse\<close>
  (\<open>None\<close> when it throws a SyntaxError) and \<^verbatim>\<open>JSON.stringify\<close>; the URL constructor;
  the message text of a built-in error. The system prompt is a constant of the module
  whose text plays no part in the control flow; it is a parameter as well.
\<close>

record llm_env =
  OPENAI_API_KEY :: "string option"
  SYSTEM_PROMPT :: string
  chat_create :: "chat_request \<Rightarrow> js_error + assistant_message option"
  search_web :: "jsval \<Rightarrow> jsval \<Rightarrow> js_error + jsval"
  fetch_page_tool :: "jsval \<Rightarrow> js_error + jsval"
  make_svg_diagram :: "jsval \<Rightarrow> js_error + jsval"
  JSON_parse :: "string \<Rightarrow> jsval option"
  JSON_stringify :: "jsval \<Rightarrow> string"
  new_URL :: url_parser
  error_message :: "js_error \<Rightarrow> string"

subsection \<open>Tool dispatch\<close>

text \<open>The names \<^verbatim>\<open>toolFunctions[name]\<close> finds besides the three tools: the members every
  object inherits. For them the lookup is truthy, no branch matches and the code throws
  inside the \<^verbatim>\<open>try\<close>; for any other name the lookup is \<^verbatim>\<open>undefined\<close> and nothing
  happens at all.\<close>

definition inherited_names :: "string list" where
  "inherited_names = [''constructor'', ''toString'', ''toLocaleString'', ''valueOf'',
     ''hasOwnProperty'', ''isPrototypeOf'', ''propertyIsEnumerable'', ''__proto__'',
     ''__defineGetter__'', ''__defineSetter__'', ''__lookupGetter__'', ''__lookupSetter__'']"

text \<open>The body of the inner \<^verbatim>\<open>try\<close>: \<open>Inr None\<close> when no tool ran and nothing was
  thrown, \<open>Inr (Some result)\<close> after a tool ran.\<close>

definition tool_attempt :: "llm_env \<Rightarrow> tool_function \<Rightarrow> js_error + jsval option" where
  "tool_attempt env f =
     (case JSON_parse env (fn_arguments f) of
        None \<Rightarrow> Inl SyntaxError
      | Some parsedArgs \<Rightarrow>
          if fn_name f = ''search_web''
          then bindE (js_get parsedArgs ''query'') (\<lambda>query.
               bindE (js_get parsedArgs ''topK'') (\<lambda>topK.
               bindE (search_web env query topK) (\<lambda>result. Inr (Some result))))
          else if fn_name f = ''fetch_page''
          then bindE (js_get parsedArgs ''url'') (\<lambda>u.
               bindE (fetch_page_tool env u) (\<lambda>result. Inr (Some result)))
          else if fn_name f = ''make_svg_diagram''
          then bindE (js_get parsedArgs ''spec'') (\<lambda>spec.
               bindE (make_svg_diagram env spec) (\<lambda>result. Inr (Some result)))
          else if fn_name f \<in> set inherited_names
          then Inl (Error (''Unknown tool: '' @ fn_name f))
          else Inr None)"

definition run_tool_call :: "llm_env \<Rightarrow> tool_call \<Rightarrow> message list" where
  "run_tool_call env toolCall =
     (if call_type toolCall = ''function''
      then (case call_function toolCall of
              None \<Rightarrow> []
            | Some f \<Rightarrow>
                (case tool_attempt env f of
                   Inr None \<Rightarrow> []
                 | Inr (Some result) \<Rightarrow> [ToolMessage (call_id toolCall) (JSON_stringify env result)]
                 | Inl error \<Rightarrow>
                     [ToolMessage (call_id toolCall)
                        (JSON_stringify env (JObj [(''error'', JStr (''Failed to execute '' @ fn_name f))]))]))
      else [])"

subsection \<open>The tool-calling loop\<close>

definition maxToolCalls :: nat where
  "maxToolCalls = 3"

definition tool_request :: "message list \<Rightarrow> chat_request" where
  "tool_request messages =
     \<lparr> model_name = ''gpt-3.5-turbo'', req_messages = messages, with_tools = True,
       temperature = 3 / 10, max_tokens = 4000 \<rparr>"

text \<open>
  The \<^verbatim>\<open>while\<close> loop, from the conversation and the counter at its head. It returns
  the requests it sent to the model, in order, and its outcome: the error thrown inside
  it, or \<^verbatim>\<open>finalResponse\<close> with the conversation at its exit.
\<close>

function tool_loop :: "llm_env \<Rightarrow> message list \<Rightarrow> nat
                        \<Rightarrow> chat_request list \<times> (js_error + string \<times> message list)" where
  "tool_loop env messages toolCallCount =
     (if toolCallCount < maxToolCalls
      then (case chat_create env (tool_request messages) of
              Inl e \<Rightarrow> ([tool_request messages], Inl e)
            | Inr None \<Rightarrow> ([tool_request messages], Inl (Error ''No response from OpenAI''))
            | Inr (Some assistantMessage) \<Rightarrow>
                (let messages1 = messages @ [AssistantMessage assistantMessage]
                 in if tool_calls assistantMessage = None \<or> tool_calls assistantMessage = Some []
                    then ([tool_request messages],
                          Inr (case content assistantMessage of None \<Rightarrow> [] | Some c \<Rightarrow> c, messages1))
                    else (let toolResults = concat (map (run_tool_call env)
                                                        (the (tool_calls assistantMessage)));
                              (log, outcome) = tool_loop env (messages1 @ toolResults) (toolCallCount + 1)
                          in (tool_request messages # log, outcome))))
      else ([], Inr ([], messages)))"
  by pat_completeness auto
termination
  by (relation "measure (\<lambda>(env, messages, toolCallCount). maxToolCalls - toolCallCount)") auto

subsection \<open>Extracting the JSON text\<close>

text \<open>The regular expressions of the extraction, each as the function that computes its
  leftmost match. \<open>after_first p s\<close> is the text after the first occurrence of \<open>p\<close>.\<close>

fun after_first :: "string \<Rightarrow> string \<Rightarrow> string option" where
  "after_first pat [] = None"
| "after_first pat (c # cs) =
     (if startsWith (c # cs) pat then Some (drop (length pat) (c # cs))
      else after_first pat cs)"

definition fence :: string where
  "fence = ''```''"

text \<open>The lazy group of the fenced-block pattern: the shortest prefix after which optional
  white space and a closing fence follow.\<close>

fun lazy_until_fence :: "string \<Rightarrow> string option" where
  "lazy_until_fence [] = None"
| "lazy_until_fence (c # cs) =
     (if startsWith (dropWhile js_space (c # cs)) fence then Some []
      else map_option (Cons c) (lazy_until_fence cs))"

text \<open>The first group of the fenced-block pattern: after the first fence, an optional
  \<^verbatim>\<open>json\<close> and white space are skipped. (When no closing fence follows the first
  fence, none follows a later one either, so the first occurrence decides.)\<close>

definition match_fence :: "string \<Rightarrow> string option" where
  "match_fence s =
     (case after_first fence s of
        None \<Rightarrow> None
      | Some r1 \<Rightarrow>
          lazy_until_fence
            (dropWhile js_space (if startsWith r1 ''json'' then drop 4 r1 else r1)))"

text \<open>A greedy pattern from an opening character to a closing one, with anything in
  between: from the first opening character to the last closing character after it.\<close>

definition match_between :: "char \<Rightarrow> char \<Rightarrow> string \<Rightarrow> string option" where
  "match_between opening closing s =
     (case dropWhile (\<lambda>c. c \<noteq> opening) s of
        [] \<Rightarrow> None
      | o' # rest \<Rightarrow>
          if closing \<in> set rest
          then Some (o' # rev (dropWhile (\<lambda>c. c \<noteq> closing) (rev rest)))
          else None)"

definition extract_jsonStr :: "string \<Rightarrow> string" where
  "extract_jsonStr finalResponse =
     (case match_fence finalResponse of
        Some block \<Rightarrow> block
      | None \<Rightarrow>
          (case match_between CHR ''{'' CHR ''}'' finalResponse of
             Some obj \<Rightarrow> obj
           | None \<Rightarrow>
               (case match_between CHR ''['' CHR '']'' finalResponse of
                  Some arr \<Rightarrow> arr
                | None \<Rightarrow> [])))"

text \<open>The clean-up: trim, a newline with the white space after it becomes a space, every
  run of white space becomes a space.\<close>

function replace_newlines :: "string \<Rightarrow> string" where
  "replace_newlines [] = []"
| "replace_newlines (c # cs) =
     (if c = newline then CHR '' '' # replace_newlines (dropWhile js_space cs)
      else c # replace_newlines cs)"
  by pat_completeness auto
termination
  by (relation "measure length") (auto simp: le_imp_less_Suc length_dropWhile_le)

definition clean_jsonStr :: "string \<Rightarrow> string" where
  "clean_jsonStr s = replace_runs js_space (replace_newlines (js_trim s))"

text \<open>The repair of a text that did not parse: a run of word characters followed by a
  colon is put in double quotes; a comma followed by optional white space and a closing
  brace or bracket is dropped.\<close>

definition is_word :: "char \<Rightarrow> bool" where
  "is_word c = (let n = (of_char c :: nat)
                in (48 \<le> n \<and> n \<le> 57) \<or> (65 \<le> n \<and> n \<le> 90) \<or> (97 \<le> n \<and> n \<le> 122) \<or> n = 95)"

function quote_keys :: "string \<Rightarrow> string" where
  "quote_keys [] = []"
| "quote_keys (c # cs) =
     (if is_word c
      then (let w = c # takeWhile is_word cs;
                rest = dropWhile is_word cs
            in case rest of
                 [] \<Rightarrow> w
               | r # rest' \<Rightarrow> if r = CHR '':'' then ''\"'' @ w @ ''\":'' @ quote_keys rest'
                               else w @ quote_keys (r # rest'))
      else c # quote_keys cs)"
  by pat_completeness auto
termination
proof (relation "measure length", goal_cases)
  case 1 show ?case by simp
next
  case (2 c cs w rest r rest')
  have "length (dropWhile is_word cs) \<le> length cs" by (rule length_dropWhile_le)
  moreover have "length (dropWhile is_word cs) = Suc (length rest')" using 2 by (metis length_Cons)
  ultimately show ?case by simp
next
  case (3 c cs w rest r rest')
  have "length (dropWhile is_word cs) \<le> length cs" by (rule length_dropWhile_le)
  moreover have "length (dropWhile is_word cs) = Suc (length rest')" using 3 by (metis length_Cons)
  ultimately show ?case by simp
next
  case 4 show ?case by simp
qed

function strip_comma_before :: "char \<Rightarrow> string \<Rightarrow> string" where
  "strip_comma_before closing [] = []"
| "strip_comma_before closing (c # cs) =
     (if c = CHR '','' \<and> startsWith (dropWhile js_space cs) [closing]
      then closing # strip_comma_before closing (drop 1 (dropWhile js_space cs))
      else c # strip_comma_before closing cs)"
  by pat_completeness auto
termination
proof (relation "measure (\<lambda>(closing, s). length s)", goal_cases)
  case 1 show ?case by simp
next
  case (2 closing c cs)
  have "length (dropWhile js_space cs) \<le> length cs" by (rule length_dropWhile_le)
  then show ?case by simp
next
  case 3 show ?case by simp
qed

definition fix_json :: "string \<Rightarrow> string" where
  "fix_json s = strip_comma_before CHR '']'' (strip_comma_before CHR ''}'' (quote_keys s))"

text \<open>The \<^verbatim>\<open>try\<close> block around extraction and parsing: whatever is thrown inside it is
  replaced by one error.\<close>

definition parse_response :: "llm_env \<Rightarrow> string \<Rightarrow> js_error + jsval" where
  "parse_response env finalResponse =
     (let jsonStr = extract_jsonStr finalResponse
      in if jsonStr = []
         then Inl (Error ''Invalid response format from AI model - unable to extract valid JSON'')
         else (let cleaned = clean_jsonStr jsonStr
               in case JSON_parse env cleaned of
                    Some v \<Rightarrow> Inr v
                  | None \<Rightarrow>
                      (case JSON_parse env (fix_json cleaned) of
                         Some v \<Rightarrow> Inr v
                       | None \<Rightarrow> Inl (Error ''Invalid response format from AI model - unable to extract valid JSON''))))"

subsection \<open>Clamp, then validate\<close>

definition clamp_and_validate :: "llm_env \<Rightarrow> jsval \<Rightarrow> js_error + answer" where
  "clamp_and_validate env parsedResponse =
     bindE (clampAnswer parsedResponse) (\<lambda>clamped.
       case safeParseAnswer (new_URL env) clamped of
         Inl issues \<Rightarrow> Inl (Error ''Response does not match required schema'')
       | Inr data \<Rightarrow> Inr data)"

subsection \<open>The citation-diversity round\<close>

definition addendum_request :: "llm_env \<Rightarrow> answer \<Rightarrow> chat_request" where
  "addendum_request env parsedResponse =
     \<lparr> model_name = ''gpt-3.5-turbo'',
       req_messages =
         [SystemMessage (''You are a helpful assistant. Provide ONLY a JSON array of 1-2 additional ''
             @ ''citations from different domains to replace or augment the existing ones. ''
             @ ''Each citation must have url, title, and quote (max 180 chars).''),
          UserMessage (''The current citations are not from distinct domains. Please provide ''
             @ ''additional citations from different domains to ensure we have at least 2 unique ''
             @ ''eTLD+1 sources. Current citations: ''
             @ JSON_stringify env (JArr (map citation_value (citations parsedResponse))))],
       with_tools = False,
       temperature = 1 / 10,
       max_tokens = 500 \<rparr>"

text \<open>The assignment \<^verbatim>\<open>parsedResponse.citations = newCitations\<close> on the validated
  object.\<close>

definition assign_citations :: "answer \<Rightarrow> jsval list \<Rightarrow> jsval" where
  "assign_citations parsedResponse newCitations =
     JObj (with_prop (js_spread (answer_value parsedResponse)) ''citations'' (JArr newCitations))"

text \<open>
  The block that follows the first validation, up to the final validation: it yields the
  object \<^verbatim>\<open>parsedResponse\<close> holds when the final validation is reached, or the error
  thrown on the way. The request to the model stands outside the inner \<^verbatim>\<open>try\<close>, so
  its error leaves the block; a text that does not parse is caught inside. The
  assignment of the new list happens before the re-validation and is not undone when
  the re-validation fails.
\<close>

definition citation_round :: "llm_env \<Rightarrow> answer \<Rightarrow> js_error + jsval" where
  "citation_round env parsedResponse =
     (if \<not> distinctDomainsOK (new_URL env) (citations parsedResponse)
      then bindE (chat_create env (addendum_request env parsedResponse)) (\<lambda>addendumCompletion.
             case (case addendumCompletion of None \<Rightarrow> None | Some m \<Rightarrow> content m) of
               None \<Rightarrow> Inr (answer_value parsedResponse)
             | Some addendumContent \<Rightarrow>
                 if addendumContent = [] then Inr (answer_value parsedResponse)
                 else (case match_between CHR ''['' CHR '']'' addendumContent of
                         None \<Rightarrow> Inr (answer_value parsedResponse)
                       | Some addendumMatch \<Rightarrow>
                           (case JSON_parse env addendumMatch of
                              None \<Rightarrow> Inr (answer_value parsedResponse)
                            | Some additionalCitations \<Rightarrow>
                                (case additionalCitations of
                                   JArr extra \<Rightarrow>
                                     (let newCitations =
                                            take 5 (map citation_value (take 2 (citations parsedResponse))
                                                    @ take 3 extra);
                                          assigned = assign_citations parsedResponse newCitations
                                      in case safeParseAnswer (new_URL env) assigned of
                                           Inl issues \<Rightarrow> Inr assigned
                                         | Inr data \<Rightarrow> Inr (answer_value data))
                                 | _ \<Rightarrow> Inr (answer_value parsedResponse)))))
      else Inr (answer_value parsedResponse))"

text \<open>The round followed by the final validation, whose result \<^verbatim>\<open>answerIssue\<close>
  returns.\<close>

definition finish :: "llm_env \<Rightarrow> answer \<Rightarrow> js_error + answer" where
  "finish env data =
     bindE (citation_round env data) (\<lambda>parsedResponse. validateAnswer (new_URL env) parsedResponse)"

subsection \<open>answerIssue\<close>

definition truthy :: "string option \<Rightarrow> bool" where
  "truthy x = (case x of None \<Rightarrow> False | Some s \<Rightarrow> s \<noteq> [])"

definition user_message :: "string \<Rightarrow> string option \<Rightarrow> string option \<Rightarrow> string" where
  "user_message issue os' device =
     (let m0 = ''Please help me resolve this IT issue: '' @ issue;
          m1 = (if truthy os' then m0 @ [newline] @ ''Operating System: '' @ the os' else m0);
          m2 = (if truthy device then m1 @ [newline] @ ''Device Type: '' @ the device else m1)
      in if \<not> truthy os' \<or> \<not> truthy device
         then m2 @ [newline, newline]
              @ ''Note: If OS or device type is essential for this issue, please ask ONE clarifying question.''
         else m2)"

text \<open>The body of the outer \<^verbatim>\<open>try\<close>.\<close>

definition answerIssue_try :: "llm_env \<Rightarrow> string \<Rightarrow> string option \<Rightarrow> string option \<Rightarrow> js_error + answer" where
  "answerIssue_try env issue os' device =
     (let messages = [SystemMessage (SYSTEM_PROMPT env), UserMessage (user_message issue os' device)]
      in bindE (snd (tool_loop env messages 0)) (\<lambda>(finalResponse, conversation).
           if finalResponse = []
           then Inl (Error ''Failed to get final response after tool calls'')
           else bindE (parse_response env finalResponse) (\<lambda>parsed.
                bindE (clamp_and_validate env parsed) (\<lambda>data.
                finish env data))))"

text \<open>The \<^verbatim>\<open>catch\<close> of the outer \<^verbatim>\<open>try\<close>: every error thrown in the model is an
  \<^verbatim>\<open>Error\<close> instance, and is thrown again under a new message.\<close>

definition message_of :: "llm_env \<Rightarrow> js_error \<Rightarrow> string" where
  "message_of env e = (case e of Error m \<Rightarrow> m | _ \<Rightarrow> error_message env e)"

definition answerIssue :: "llm_env \<Rightarrow> string \<Rightarrow> string option \<Rightarrow> string option \<Rightarrow> js_error + answer" where
  "answerIssue env issue os' device =
     (if \<not> truthy (OPENAI_API_KEY env)
      then Inl (Error ''OpenAI API key not configured'')
      else (case answerIssue_try env issue os' device of
              Inr a \<Rightarrow> Inr a
            | Inl error \<Rightarrow> Inl (Error (''Unable to process your request: '' @ message_of env error))))"

text \<open>The array the round extracts from the reply to its request, if there is one: the
  reply has a non-empty content, the content has a bracket-delimited part, and that part
  parses to an array.\<close>

definition addendum_array :: "llm_env \<Rightarrow> assistant_message option \<Rightarrow> jsval list option" where
  "addendum_array env reply =
     (case reply of
        None \<Rightarrow> None
      | Some m \<Rightarrow>
          (case content m of
             None \<Rightarrow> None
           | Some c \<Rightarrow>
               if c = [] then None
               else (case match_between CHR ''['' CHR '']'' c of
                       None \<Rightarrow> None
                     | Some t \<Rightarrow>
                         (case JSON_parse env t of
                            Some (JArr xs) \<Rightarrow> Some xs
                          | _ \<Rightarrow> None))))"




section \<open>The request handler\<close>

text \<open>
  \<^verbatim>\<open>POST\<close> composes the limiter, the cache and the orchestrator. Its state is the two
  services of the module; its clock readings are named after the place of each
  \<^verbatim>\<open>Date.now()\<close>. Console output (telemetry, warnings) is not modelled. Besides the
  response and the new state the model returns the trace of what the execution did on
  behalf of the request: reading the body, looking the cache up, calling the
  orchestrator, storing into the cache.
\<close>

record http_request =
  x_forwarded_for :: "string option"
  x_real_ip :: "string option"
  json_body :: "jsval option"

datatype header_value = HeaderText string | HeaderNumber rat | HeaderInstant int

record route_response =
  status_code :: nat
  response_body :: jsval
  response_headers :: "(string \<times> header_value) list"

record answer_request =
  req_issue :: string
  req_os :: os
  req_device :: string

type_synonym cache_key = "string \<times> os \<times> string"

record route_state =
  limiter :: TokenBucketRateLimiter
  answers :: "(cache_key, answer) LRUCache"

record clock =
  now_consume :: int
  now_remaining :: int
  now_retry :: int
  now_reset :: int
  now_cache_get :: int
  now_cache_set :: int
  now_remaining_miss :: int

datatype event =
    ReadBody
  | CacheLookup cache_key
  | OrchestratorCall string string string
  | CacheStore cache_key

definition initial_state :: route_state where
  "initial_state = \<lparr> limiter = rateLimiter, answers = new_LRUCache 100 6 \<rparr>"

definition AnswerRequestSchema :: "path \<Rightarrow> jsval \<Rightarrow> answer_request parsed" where
  "AnswerRequestSchema p v =
     (if \<not> is_object v then Inl [Issue invalid_type p]
      else z_map (\<lambda>(i, o', d). \<lparr> req_issue = i, req_os = o', req_device = d \<rparr>)
            (z_both (z_field (z_string [str_min 1]) p v ''issue'')
            (z_both (z_field z_os p v ''os'')
                    (z_field (z_string [str_min 1]) p v ''device''))))"

text \<open>\<^verbatim>\<open>forwarded?.split(',')[0] || realIp || 'anonymous'\<close>.\<close>

definition client_ip :: "http_request \<Rightarrow> string" where
  "client_ip request =
     (let first = (case x_forwarded_for request of
                     None \<Rightarrow> None
                   | Some forwarded \<Rightarrow> Some (hd (js_split CHR '','' forwarded)))
      in if truthy first then the first
         else if truthy (x_real_ip request) then the (x_real_ip request)
         else ''anonymous'')"

definition code_name :: "issue_code \<Rightarrow> string" where
  "code_name c = (case c of invalid_type \<Rightarrow> ''invalid_type'' | too_small \<Rightarrow> ''too_small''
                  | too_big \<Rightarrow> ''too_big'' | invalid_string \<Rightarrow> ''invalid_string''
                  | invalid_enum_value \<Rightarrow> ''invalid_enum_value'' | custom \<Rightarrow> ''custom'')"

definition issue_value :: "zod_issue \<Rightarrow> jsval" where
  "issue_value i =
     JObj [(''code'', JStr (code_name (code i))),
           (''path'', JArr (map (\<lambda>e. case e of Key k \<Rightarrow> JStr k | Idx n \<Rightarrow> JNum (of_nat n)) (at_path i)))]"

definition rate_limit_response :: "clock \<Rightarrow> rat \<Rightarrow> route_response" where
  "rate_limit_response clk remaining =
     \<lparr> status_code = 429,
       response_body =
         JObj [(''error'', JStr ''Rate limit exceeded. Please try again later.''),
               (''retryAfter'',
                JNum (of_int \<lceil>(of_int (10 * 60 * 1000 - now_retry clk mod (10 * 60 * 1000)) :: rat) / 1000\<rceil>))],
       response_headers =
         [(''X-RateLimit-Remaining'', HeaderNumber remaining),
          (''X-RateLimit-Reset'', HeaderInstant (now_reset clk + 10 * 60 * 1000))] \<rparr>"

text \<open>The response of the \<^verbatim>\<open>catch\<close> block: the issues for an invalid payload, a
  generic message for everything else.\<close>

definition error_response :: "js_error \<Rightarrow> route_response" where
  "error_response error =
     (case error of
        ZodError issues \<Rightarrow>
          \<lparr> status_code = 400,
            response_body = JObj [(''error'', JStr ''Invalid request data''),
                                  (''details'', JArr (map issue_value issues))],
            response_headers = [] \<rparr>
      | _ \<Rightarrow>
          \<lparr> status_code = 500,
            response_body = JObj [(''error'', JStr ''Internal server error'')],
            response_headers = [] \<rparr>)"

text \<open>The handler. The \<^verbatim>\<open>catch\<close> block reads the body once more for its log, which
  is why a failing request has a second \<open>ReadBody\<close> at the end of its trace.\<close>

definition POST :: "llm_env \<Rightarrow> clock \<Rightarrow> route_state \<Rightarrow> http_request
                    \<Rightarrow> route_response \<times> route_state \<times> event list" where
  "POST env clk st request =
     (let clientIP = client_ip request;
          (admitted, limiter') = consume (limiter st) (now_consume clk) clientIP;
          st1 = st \<lparr> limiter := limiter' \<rparr>
      in if \<not> admitted
         then (let remaining = getRemainingTokens limiter' (now_remaining clk) clientIP
               in (rate_limit_response clk remaining, st1, []))
         else
           (case json_body request of
              None \<Rightarrow> (error_response SyntaxError, st1, [ReadBody, ReadBody])
            | Some body \<Rightarrow>
                (case AnswerRequestSchema [] body of
                   Inl issues \<Rightarrow> (error_response (ZodError issues), st1, [ReadBody, ReadBody])
                 | Inr validatedData \<Rightarrow>
                     (let cacheKey = (req_issue validatedData, req_os validatedData, req_device validatedData);
                          (cachedResult, cache1) = lru_get (answers st1) (now_cache_get clk) cacheKey;
                          st2 = st1 \<lparr> answers := cache1 \<rparr>
                      in case cachedResult of
                           Some cached \<Rightarrow>
                             (\<lparr> status_code = 200,
                                response_body = answer_value cached,
                                response_headers =
                                  [(''X-Cache'', HeaderText ''HIT''),
                                   (''X-Cache-Size'', HeaderNumber (of_nat (lru_size cache1)))] \<rparr>,
                              st2, [ReadBody, CacheLookup cacheKey])
                         | None \<Rightarrow>
                             (case answerIssue env (req_issue validatedData)
                                     (Some (os_name (req_os validatedData)))
                                     (Some (req_device validatedData)) of
                                Inl error \<Rightarrow>
                                  (error_response error, st2,
                                   [ReadBody, CacheLookup cacheKey,
                                    OrchestratorCall (req_issue validatedData)
                                      (os_name (req_os validatedData)) (req_device validatedData),
                                    ReadBody])
                              | Inr answer' \<Rightarrow>
                                  (let cache2 = lru_set cache1 (now_cache_set clk) cacheKey answer'
                                   in (\<lparr> status_code = 200,
                                          response_body = answer_value answer',
                                          response_headers =
                                            [(''X-Cache'', HeaderText ''MISS''),
                                             (''X-Cache-Size'', HeaderNumber (of_nat (lru_size cache2))),
                                             (''X-RateLimit-Remaining'',
                                              HeaderNumber (getRemainingTokens limiter'
                                                              (now_remaining_miss clk) clientIP))] \<rparr>,
                                       st2 \<lparr> answers := cache2 \<rparr>,
                                       [ReadBody, CacheLookup cacheKey,
                                        OrchestratorCall (req_issue validatedData)
                                          (os_name (req_os validatedData)) (req_device validatedData),
                                        CacheStore cacheKey])))))))"

section \<open>Concrete inputs used in examples\<close>

text \<open>A URL constructor for the four URLs of the specification's examples: it knows
  their hostnames and rejects every other string.\<close>

definition example_hosts :: url_parser where
  "example_hosts = map_of [(''https://support.example.com'', ''support.example.com''),
     (''https://docs.example.com'', ''docs.example.com''),
     (''https://example.com'', ''example.com''),
     (''https://different.org'', ''different.org'')]"

text \<open>An object of type \<^verbatim>\<open>Answer\<close> that breaks the contract in three ways: a title of
  300 characters, a single citation, and a citation URL that is no URL.\<close>

definition untidy_answer :: jsval where
  "untidy_answer = JObj
     [(''answer_title'', JStr (replicate 300 CHR ''A'')),
      (''one_paragraph_summary'', JStr ''Restart the router.''),
      (''prereqs'', JArr [JStr ''Power cable'']),
      (''steps'', JArr [JObj [(''title'', JStr ''Unplug''), (''detail'', JStr ''Unplug the router.''),
                               (''os'', JArr [JStr ''Windows'']), (''est_minutes'', JNum 2),
                               (''shell'', JArr [JStr ''ipconfig /renew''])]]),
      (''decision_tree'', JArr [JObj [(''if'', JStr ''still offline''), (''then'', JStr ''call the provider''),
                                       (''link_step'', JNum 1)]]),
      (''diagrams'', JArr []),
      (''citations'', JArr [JObj [(''url'', JStr ''not-a-url''), (''title'', JStr ''Guide''),
                                   (''quote'', JStr (replicate 200 CHR ''q''))]]),
      (''warnings'', JArr [])]"





text \<open>A model that asks for a web search whatever the conversation is, with the
  collaborators it needs: the search returns no result, \<^verbatim>\<open>JSON.parse\<close> knows the
  argument text of the call.\<close>

definition search_call :: tool_call where
  "search_call = \<lparr> call_id = ''call_1'', call_type = ''function'',
                    call_function = Some \<lparr> fn_name = ''search_web'', fn_arguments = ''{\"query\":\"wifi\"}'' \<rparr> \<rparr>"

definition searching_env :: llm_env where
  "searching_env =
     \<lparr> OPENAI_API_KEY = Some ''sk-test'',
       SYSTEM_PROMPT = ''You are a Level-1 IT support expert.'',
       chat_create = (\<lambda>req. Inr (Some \<lparr> content = None, tool_calls = Some [search_call] \<rparr>)),
       search_web = (\<lambda>query topK. Inr (JArr [])),
       fetch_page_tool = (\<lambda>u. Inr (JObj [])),
       make_svg_diagram = (\<lambda>spec. Inr (JObj [])),
       JSON_parse = (\<lambda>s. if s = ''{\"query\":\"wifi\"}'' then Some (JObj [(''query'', JStr ''wifi'')]) else None),
       JSON_stringify = (\<lambda>v. ''[]''),
       new_URL = example_hosts,
       error_message = (\<lambda>e. ''error'') \<rparr>"

text \<open>A valid answer whose two citations share the registrable domain
  \<^verbatim>\<open>example.com\<close>, the JSON text of it as a model would return it, and three replies
  to the citation request: an array whose citation has no valid URL, an array whose
  citation is valid but for a quote of 200 characters, and a text with no array in it.\<close>

definition same_domain_answer :: answer where
  "same_domain_answer =
     \<lparr> answer_title = ''Router'',
       one_paragraph_summary = ''Power-cycle.'',
       prereqs = [],
       steps = [\<lparr> step_title = ''Unplug'', detail = ''Wait.'', os = [Windows],
                  est_minutes = None, shell = None \<rparr>],
       decision_tree = [],
       diagrams = [],
       citations = [\<lparr> url = ''https://support.example.com'', citation_title = ''Support'', quote = ''Unplug.'' \<rparr>,
                    \<lparr> url = ''https://docs.example.com'', citation_title = ''Docs'', quote = ''Wait.'' \<rparr>],
       warnings = [] \<rparr>"

definition same_domain_text :: string where
  "same_domain_text =
     ''{\"answer_title\":\"Router\",\"one_paragraph_summary\":\"Power-cycle.\",\"prereqs\":[],''
     @ ''\"steps\":[{\"title\":\"Unplug\",\"detail\":\"Wait.\",\"os\":[\"Windows\"]}],''
     @ ''\"decision_tree\":[],\"diagrams\":[],''
     @ ''\"citations\":[{\"url\":\"https://support.example.com\",\"title\":\"Support\",\"quote\":\"Unplug.\"},''
     @ ''{\"url\":\"https://docs.example.com\",\"title\":\"Docs\",\"quote\":\"Wait.\"}],''
     @ ''\"warnings\":[]}''"

definition same_domain_citations_text :: string where
  "same_domain_citations_text =
     ''[{\"url\":\"https://support.example.com\",\"title\":\"Support\",\"quote\":\"Unplug.\"},''
     @ ''{\"url\":\"https://docs.example.com\",\"title\":\"Docs\",\"quote\":\"Wait.\"}]''"

definition bad_addendum_text :: string where
  "bad_addendum_text = ''[{\"url\":\"not-a-url\",\"title\":\"Other\",\"quote\":\"See.\"}]''"

definition bad_addendum_value :: jsval where
  "bad_addendum_value = JArr [JObj [(''url'', JStr ''not-a-url''), (''title'', JStr ''Other''), (''quote'', JStr ''See.'')]]"

definition long_quote_text :: string where
  "long_quote_text =
     ''[{\"url\":\"https://different.org\",\"title\":\"Manual\",\"quote\":\"''
     @ replicate 200 CHR ''q'' @ ''\"}]''"

definition long_quote_value :: jsval where
  "long_quote_value = JArr [JObj [(''url'', JStr ''https://different.org''), (''title'', JStr ''Manual''),
                                  (''quote'', JStr (replicate 200 CHR ''q''))]]"

definition no_array_text :: string where
  "no_array_text = ''Sorry, I have no further sources.''"

text \<open>The collaborators of these runs: the model answers the first request with the
  JSON text and the citation request with the given reply; \<^verbatim>\<open>JSON.parse\<close> and
  \<^verbatim>\<open>JSON.stringify\<close> are given on the texts and values that occur.\<close>

definition repair_env :: "(js_error + assistant_message option) \<Rightarrow> llm_env" where
  "repair_env reply =
     \<lparr> OPENAI_API_KEY = Some ''sk-test'',
       SYSTEM_PROMPT = ''You are a Level-1 IT support expert.'',
       chat_create = (\<lambda>req. if with_tools req
                              then Inr (Some \<lparr> content = Some same_domain_text, tool_calls = None \<rparr>)
                              else reply),
       search_web = (\<lambda>query topK. Inr (JArr [])),
       fetch_page_tool = (\<lambda>u. Inr (JObj [])),
       make_svg_diagram = (\<lambda>spec. Inr (JObj [])),
       JSON_parse = (\<lambda>s. if s = same_domain_text then Some (answer_value same_domain_answer)
                           else if s = bad_addendum_text then Some bad_addendum_value
                           else if s = long_quote_text then Some long_quote_value
                           else None),
       JSON_stringify = (\<lambda>v. if v = JArr (map citation_value (citations same_domain_answer))
                               then same_domain_citations_text else ''null''),
       new_URL = example_hosts,
       error_message = (\<lambda>e. ''Validation failed'') \<rparr>"






definition no_prereqs_reply :: jsval where
  "no_prereqs_reply = JObj
     [(''answer_title'', JStr ''Router''),
      (''one_paragraph_summary'', JStr ''Power-cycle.''),
      (''steps'', JArr [JObj [(''title'', JStr ''Unplug''), (''detail'', JStr ''Wait.''),
                               (''os'', JArr [JStr ''Windows''])]]),
      (''decision_tree'', JArr []),
      (''diagrams'', JArr []),
      (''citations'', JArr [JObj [(''url'', JStr ''https://example.com''), (''title'', JStr ''Guide''),
                                   (''quote'', JStr ''Unplug.'')],
                             JObj [(''url'', JStr ''https://different.org''), (''title'', JStr ''Manual''),
                                   (''quote'', JStr ''Wait.'')]]),
      (''warnings'', JArr [])]"

text \<open>A state in which the identity \<^verbatim>\<open>10.0.0.7\<close> has used up its tokens at time 1000, a
  request of that identity, and the clock readings of its handling.\<close>

definition exhausted_state :: route_state where
  "exhausted_state =
     \<lparr> limiter = rateLimiter \<lparr> buckets := [''10.0.0.7'' \<mapsto> \<lparr> tokens = 0, lastRefill = 1000 \<rparr>] \<rparr>,
       answers = new_LRUCache 100 6 \<rparr>"

definition wifi_request :: http_request where
  "wifi_request =
     \<lparr> x_forwarded_for = Some ''10.0.0.7,10.1.1.1'',
       x_real_ip = None,
       json_body = Some (JObj [(''issue'', JStr ''wifi''), (''os'', JStr ''Windows''),
                               (''device'', JStr ''Laptop'')]) \<rparr>"

definition soon_after :: clock where
  "soon_after = \<lparr> now_consume = 31000, now_remaining = 31001, now_retry = 31002, now_reset = 31003,
                   now_cache_get = 31004, now_cache_set = 31005, now_remaining_miss = 31006 \<rparr>"

section \<open>Properties of the rate limiter and the cache\<close>

lemma consume_same_time_admit:
  assumes "buckets rl ip = Some \<lparr> tokens = k, lastRefill = t \<rparr>" "k \<le> maxTokens rl" "1 \<le> k"
  shows "consume rl t ip = (True, rl \<lparr> buckets := (buckets rl)(ip \<mapsto> \<lparr> tokens = k - 1, lastRefill = t \<rparr>) \<rparr>)"
  using assms by (simp add: consume_def Let_def min_def)

lemma consume_fresh:
  assumes "buckets rl ip = None" "1 \<le> maxTokens rl"
  shows "consume rl t ip = (True, rl \<lparr> buckets := (buckets rl)(ip \<mapsto> \<lparr> tokens = maxTokens rl - 1, lastRefill = t \<rparr>) \<rparr>)"
  using assms by (simp add: consume_def Let_def min_def)

lemma consume_empty_deny:
  assumes "buckets rl ip = Some \<lparr> tokens = 0, lastRefill = t0 \<rparr>" "maxTokens rl = 10" "refillRate rl = 1 / 60000"
     "t0 \<le> t" "t < t0 + 60000"
  shows "consume rl t ip = (False, rl \<lparr> buckets := (buckets rl)(ip \<mapsto> \<lparr> tokens = of_int (t - t0) / 60000, lastRefill = t \<rparr>) \<rparr>)"
proof -
  define a where "a = (of_int (t - t0) :: rat) * refillRate rl"
  have a: "a = of_int (t - t0) / 60000" by (simp add: a_def assms(3))
  have "(of_int (t - t0) :: rat) < 60000" using assms(5) by linarith
  then have lt: "a < 1" by (simp add: a)
  then have lt10: "a < 10" by linarith
  have b0: "tokens \<lparr> tokens = 0, lastRefill = t0 \<rparr> + of_int (t - lastRefill \<lparr> tokens = 0, lastRefill = t0 \<rparr>) * refillRate rl = a"
    by (simp add: a_def)
  show ?thesis
    unfolding consume_def Let_def assms(1) option.case b0 assms(2)
    using lt lt10 by (simp add: a)
qed

lemma rl_simps: "maxTokens rateLimiter = 10" "refillRate rateLimiter = 1 / 60000" "refillInterval rateLimiter = 600000"
  by (simp_all add: rateLimiter_def new_TokenBucketRateLimiter_def)

text \<open>
  Claim C2. An identity without a bucket, under the route's configuration (10 tokens):
  eleven \<open>consume\<close> calls with the same clock reading answer \<open>true\<close> ten times and
  then \<open>false\<close>. The denying call stores the bucket all the same: a denied call at any
  later reading \<open>t\<close> within the first minute writes the refilled token count and the
  new timestamp \<open>t\<close> (at \<open>t = now\<close> that is \<open>0\<close> tokens at \<open>now\<close>).
\<close>

theorem consume_back_to_back:
  "bs ip = None \<Longrightarrow>
   consume_calls (rateLimiter \<lparr> buckets := bs \<rparr>) ip (replicate 11 now)
     = (replicate 10 True @ [False],
        rateLimiter \<lparr> buckets := bs(ip \<mapsto> \<lparr> tokens = 0, lastRefill = now \<rparr>) \<rparr>)
   \<and> (\<forall>t. now \<le> t \<and> t < now + 60000 \<longrightarrow>
        consume (rateLimiter \<lparr> buckets := bs(ip \<mapsto> \<lparr> tokens = 0, lastRefill = now \<rparr>) \<rparr>) t ip
          = (False, rateLimiter \<lparr> buckets := bs(ip \<mapsto> \<lparr> tokens = of_int (t - now) / 60000, lastRefill = t \<rparr>) \<rparr>))"
proof (intro conjI allI impI)
  assume fresh: "bs ip = None"
  show "consume_calls (rateLimiter \<lparr> buckets := bs \<rparr>) ip (replicate 11 now)
     = (replicate 10 True @ [False],
        rateLimiter \<lparr> buckets := bs(ip \<mapsto> \<lparr> tokens = 0, lastRefill = now \<rparr>) \<rparr>)"
    using fresh
    by (simp add: numeral_eq_Suc consume_fresh consume_same_time_admit consume_empty_deny rl_simps)
next
  fix t assume "now \<le> t \<and> t < now + 60000"
  then show "consume (rateLimiter \<lparr> buckets := bs(ip \<mapsto> \<lparr> tokens = 0, lastRefill = now \<rparr>) \<rparr>) t ip
          = (False, rateLimiter \<lparr> buckets := bs(ip \<mapsto> \<lparr> tokens = of_int (t - now) / 60000, lastRefill = t \<rparr>) \<rparr>)"
    by (simp add: consume_empty_deny rl_simps)
qed

theorem consume_back_to_back_witness:
  "consume_calls (rateLimiter \<lparr> buckets := Map.empty \<rparr>) ''10.0.0.7'' (replicate 11 1000)
     = (replicate 10 True @ [False],
        rateLimiter \<lparr> buckets := [''10.0.0.7'' \<mapsto> \<lparr> tokens = 0, lastRefill = 1000 \<rparr>] \<rparr>)
   \<and> consume (rateLimiter \<lparr> buckets := [''10.0.0.7'' \<mapsto> \<lparr> tokens = 0, lastRefill = 1000 \<rparr>] \<rparr>) 31000 ''10.0.0.7''
          = (False, rateLimiter \<lparr> buckets := [''10.0.0.7'' \<mapsto> \<lparr> tokens = 1 / 2, lastRefill = 31000 \<rparr>] \<rparr>)"
  using consume_back_to_back [of Map.empty "''10.0.0.7''" 1000] 
  by simp

lemma Map_set_absent: "k \<notin> fst ` set m \<Longrightarrow> Map_set m k v = m @ [(k, v)]"
  by (induction m) auto

lemma Map_delete_absent: "k \<notin> fst ` set (Map_delete m k)"
  by (auto simp: Map_delete_def)

lemma Map_delete_id: "k \<notin> fst ` set m \<Longrightarrow> Map_delete m k = m"
  by (induction m) (auto simp: Map_delete_def)

lemma length_Map_delete: "length (Map_delete m k) \<le> length m"
  by (simp add: Map_delete_def)

lemma length_Map_delete_present: "k \<in> fst ` set m \<Longrightarrow> length (Map_delete m k) < length m"
  unfolding Map_delete_def
  by (auto intro: length_filter_less)

lemma Map_get_present: "Map_get m k = Some v \<Longrightarrow> k \<in> fst ` set m"
  unfolding Map_get_def by (metis map_of_eq_None_iff option.distinct(1))

lemma keys_Map_delete: "map fst (Map_delete m k) = filter (\<lambda>x. x \<noteq> k) (map fst m)"
  by (induction m) (auto simp: Map_delete_def)

lemma distinct_Map_delete: "distinct (map fst m) \<Longrightarrow> distinct (map fst (Map_delete m k))"
  by (simp add: keys_Map_delete)

lemma Map_delete_hd: "distinct (map fst m) \<Longrightarrow> Map_delete m (fst (hd m)) = tl m"
proof (cases m)
  case Nil then show ?thesis by (simp add: Map_delete_def)
next
  case (Cons kv rest)
  assume "distinct (map fst m)"
  then have "fst kv \<notin> fst ` set rest" by (simp add: Cons)
  then have "\<forall>x \<in> set rest. fst x \<noteq> fst kv" by (metis imageI)
  then have "filter (\<lambda>x. fst x \<noteq> fst kv) rest = rest" by (simp add: filter_id_conv)
  then show ?thesis by (simp add: Cons Map_delete_def)
qed

lemma survivors_absent: "key \<notin> fst ` set (survivors c key)"
  by (auto simp: survivors_def Let_def Map_delete_def split: list.splits)

lemma lru_set_eq: "cache (lru_set c now key v) = survivors c key @ [(key, \<lparr> val = v, timestamp = now \<rparr>)]"
  using survivors_absent[of key c]
  by (simp add: lru_set_def Let_def Map_set_absent survivors_def)

lemma lru_set_fields: "capacity (lru_set c now key v) = capacity c" "ttl (lru_set c now key v) = ttl c"
  by (simp_all add: lru_set_def Let_def)

lemma length_survivors: "0 < capacity c \<Longrightarrow> length (cache c) \<le> capacity c \<Longrightarrow> length (survivors c key) < capacity c"
proof -
  assume cap: "0 < capacity c" and le: "length (cache c) \<le> capacity c"
  let ?m1 = "Map_delete (cache c) key"
  have l1: "length ?m1 \<le> capacity c" using le length_Map_delete[of "cache c" key] by linarith
  show ?thesis
  proof (cases "length ?m1 \<ge> capacity c")
    case False
    then show ?thesis by (simp add: survivors_def Let_def Map_size_def)
  next
    case True
    then have ne: "?m1 \<noteq> []" using cap by auto
    then obtain kv rest where m1: "?m1 = kv # rest" by (cases ?m1) auto
    have "fst kv \<in> fst ` set ?m1" by (simp add: m1)
    then have "length (Map_delete ?m1 (fst kv)) < length ?m1" by (rule length_Map_delete_present)
    then show ?thesis using l1 True by (simp add: survivors_def Let_def Map_size_def Map_keys_def m1)
  qed
qed

lemma lru_set_size: "0 < capacity c \<Longrightarrow> length (cache c) \<le> capacity c \<Longrightarrow> length (cache (lru_set c now key v)) \<le> capacity c"
  using length_survivors[of c key] by (simp add: lru_set_eq)

lemma lru_get_fields: "capacity (snd (lru_get c now key)) = capacity c" "ttl (snd (lru_get c now key)) = ttl c"
  by (simp_all add: lru_get_def split: option.splits)

lemma lru_get_size: "length (cache (snd (lru_get c now key))) \<le> length (cache c)"
proof (cases "Map_get (cache c) key")
  case None then show ?thesis by (simp add: lru_get_def)
next
  case (Some item)
  then have "length (Map_delete (cache c) key) < length (cache c)"
    by (intro length_Map_delete_present Map_get_present)
  then show ?thesis using Some Map_delete_absent[of key "cache c"]
    by (simp add: lru_get_def Map_set_absent)
qed

lemma apply_cache_op_inv:
  "0 < capacity c \<Longrightarrow> length (cache c) \<le> capacity c \<Longrightarrow>
   capacity (apply_cache_op c op) = capacity c \<and> length (cache (apply_cache_op c op)) \<le> capacity c"
proof (cases op)
  case (Get k now)
  assume "0 < capacity c" "length (cache c) \<le> capacity c"
  then show ?thesis using lru_get_size[of c now k] by (simp add: Get lru_get_fields)
next
  case (Put k v now)
  assume "0 < capacity c" "length (cache c) \<le> capacity c"
  then show ?thesis by (simp add: Put lru_set_fields lru_set_size)
qed

lemma run_cache_ops_inv:
  "0 < capacity c \<Longrightarrow> length (cache c) \<le> capacity c \<Longrightarrow>
   capacity (run_cache_ops c ops) = capacity c \<and> length (cache (run_cache_ops c ops)) \<le> capacity c"
proof (induction ops arbitrary: c)
  case Nil then show ?case by simp
next
  case (Cons op ops)
  from apply_cache_op_inv[OF Cons.prems, of op]
  have a: "capacity (apply_cache_op c op) = capacity c" "length (cache (apply_cache_op c op)) \<le> capacity c" by auto
  with Cons.prems have "0 < capacity (apply_cache_op c op)" "length (cache (apply_cache_op c op)) \<le> capacity (apply_cache_op c op)" by auto
  from Cons.IH[OF this] a show ?case by simp
qed

lemma survivors_new_key:
  assumes "distinct (map fst (cache c))" "key \<notin> fst ` set (cache c)" "0 < capacity c" "length (cache c) \<le> capacity c"
  shows "survivors c key = (if length (cache c) = capacity c then tl (cache c) else cache c)"
proof -
  have m1: "Map_delete (cache c) key = cache c" using assms(2) by (rule Map_delete_id)
  show ?thesis
  proof (cases "length (cache c) = capacity c")
    case True
    then have ne: "cache c \<noteq> []" using assms(3) by auto
    have "Map_delete (cache c) (fst (hd (cache c))) = tl (cache c)" using assms(1) by (rule Map_delete_hd)
    then show ?thesis using True ne unfolding survivors_def Let_def m1
      by (cases "cache c") (simp_all add: Map_size_def Map_keys_def)
  next
    case False
    then show ?thesis using assms(4) by (simp add: survivors_def Let_def m1 Map_size_def)
  qed
qed

lemma insert_all_keys:
  "0 < capacity c \<Longrightarrow> length (cache c) \<le> capacity c \<Longrightarrow> distinct (map fst (cache c) @ map fst kvs) \<Longrightarrow>
   capacity (insert_all c kvs) = capacity c \<and>
   map fst (cache (insert_all c kvs)) = drop (length (cache c) + length kvs - capacity c) (map fst (cache c) @ map fst kvs)"
proof (induction kvs arbitrary: c)
  case Nil then show ?case by simp
next
  case (Cons kv kvs)
  obtain k v now where kv: "kv = (k, v, now)" by (cases kv) auto
  let ?c' = "lru_set c now k v"
  have d: "distinct (map fst (cache c))" and knew: "k \<notin> fst ` set (cache c)" using Cons.prems(3) by (auto simp: kv)
  have sv: "survivors c k = (if length (cache c) = capacity c then tl (cache c) else cache c)"
    using d knew Cons.prems(1,2) by (rule survivors_new_key)
  have cc: "cache ?c' = survivors c k @ [(k, \<lparr> val = v, timestamp = now \<rparr>)]" by (rule lru_set_eq)
  have cap': "capacity ?c' = capacity c" by (simp add: lru_set_fields)
  have len': "length (cache ?c') \<le> capacity ?c'" using Cons.prems(1,2) by (simp add: lru_set_fields lru_set_size)
  have sub: "set (map fst (survivors c k)) \<subseteq> set (map fst (cache c))"
    by (cases "cache c") (auto simp: sv)
  have dsv: "distinct (map fst (survivors c k))" using d by (auto simp: sv distinct_tl map_tl)
  have disj: "set (map fst (cache c)) \<inter> set (map fst kvs) = {}" and knk: "k \<notin> set (map fst kvs)"
    and dk: "distinct (map fst kvs)" and kns: "k \<notin> set (map fst (cache c))"
    using Cons.prems(3) unfolding kv by auto
  have disj': "set (map fst (survivors c k)) \<inter> set (map fst kvs) = {}" using disj sub by blast
  have kns': "k \<notin> set (map fst (survivors c k))" using kns sub by blast
  have dist': "distinct (map fst (cache ?c') @ map fst kvs)"
    unfolding cc using dsv disj' kns' knk dk by simp
  have IH: "capacity (insert_all ?c' kvs) = capacity ?c' \<and>
     map fst (cache (insert_all ?c' kvs)) = drop (length (cache ?c') + length kvs - capacity ?c') (map fst (cache ?c') @ map fst kvs)"
    using Cons.IH[OF _ len' dist'] Cons.prems(1) cap' by simp
  show ?case
  proof (cases "length (cache c) = capacity c")
    case True
    then have ne: "cache c \<noteq> []" using Cons.prems(1) by auto
    have l: "length (cache ?c') = capacity c" using True Cons.prems(1) by (simp add: cc sv)
    obtain e rest where cce: "cache c = e # rest" using ne by (cases "cache c") auto
    have n: "length (cache ?c') + length kvs - capacity ?c' = length kvs" using l cap' by simp
    have n2: "length (cache c) + length (kv # kvs) - capacity c = Suc (length kvs)" using True by simp
    have sv': "survivors c k = rest" using True by (simp add: sv cce)
    have key: "drop (Suc (length kvs)) (map fst (cache c) @ map fst (kv # kvs))
                = drop (length kvs) (map fst (cache ?c') @ map fst kvs)"
      unfolding cc sv' cce kv by (simp del: drop_append)
    show ?thesis unfolding n2 key using IH unfolding n by (simp add: kv cap')
  next
    case False
    then have l: "length (cache ?c') = Suc (length (cache c))" by (simp add: cc sv)
    show ?thesis using IH False by (simp add: kv cap' l cc sv)
  qed
qed

text \<open>
  Claim C3. With a positive capacity, whatever sequence of \<open>get\<close> and \<open>set\<close> calls
  runs on a new cache, its size stays within the capacity. Inserting \<open>capacity + 1\<close>
  distinct keys leaves exactly \<open>capacity\<close> entries, all keys but the first one; and in
  general a \<open>set\<close> of a new key on a full cache drops the key at the head of the
  access order, the least recently touched one.
\<close>

theorem lru_capacity_bound:
  "0 < cap \<Longrightarrow>
     lru_size (run_cache_ops (new_LRUCache cap h :: ('k, 'v) LRUCache) ops) \<le> cap
   \<and> (distinct (map fst kvs) \<and> length kvs = cap + 1 \<longrightarrow>
        lru_size (insert_all (new_LRUCache cap h :: ('k, 'v) LRUCache) kvs) = cap
      \<and> Map_keys (cache (insert_all (new_LRUCache cap h :: ('k, 'v) LRUCache) kvs)) = tl (map fst kvs))
   \<and> (\<forall>(c :: ('k, 'v) LRUCache) key v now.
          capacity c = cap \<and> distinct (Map_keys (cache c)) \<and> lru_size c = cap
          \<and> key \<notin> set (Map_keys (cache c)) \<longrightarrow>
        Map_keys (cache (lru_set c now key v)) = tl (Map_keys (cache c)) @ [key])"
proof (intro conjI impI allI)
  assume cap: "0 < cap"
  let ?c0 = "new_LRUCache cap h :: ('k, 'v) LRUCache"
  have c0: "capacity ?c0 = cap" "cache ?c0 = []" by (simp_all add: new_LRUCache_def)
  show "lru_size (run_cache_ops ?c0 ops) \<le> cap"
    using run_cache_ops_inv[of ?c0 ops] cap by (simp add: c0 lru_size_def Map_size_def)
  {
    assume h: "distinct (map fst kvs) \<and> length kvs = cap + 1"
    have k: "map fst (cache (insert_all ?c0 kvs)) = drop (length (cache ?c0) + length kvs - capacity ?c0) (map fst (cache ?c0) @ map fst kvs)"
      using insert_all_keys[of ?c0 kvs] cap h by (simp add: c0)
    then have k': "map fst (cache (insert_all ?c0 kvs)) = tl (map fst kvs)"
      using h by (simp add: c0 drop_Suc)
    then show "Map_keys (cache (insert_all ?c0 kvs)) = tl (map fst kvs)" by (simp add: Map_keys_def)
    have "length (map fst (cache (insert_all ?c0 kvs))) = cap" unfolding k' using h by simp
    then show "lru_size (insert_all ?c0 kvs) = cap" by (simp add: lru_size_def Map_size_def)
  }
  fix c :: "('k, 'v) LRUCache" and key v now
  assume a: "capacity c = cap \<and> distinct (Map_keys (cache c)) \<and> lru_size c = cap \<and> key \<notin> set (Map_keys (cache c))"
  then have "survivors c key = (if length (cache c) = capacity c then tl (cache c) else cache c)"
    using cap by (intro survivors_new_key) (simp_all add: Map_keys_def lru_size_def Map_size_def)
  then show "Map_keys (cache (lru_set c now key v)) = tl (Map_keys (cache c)) @ [key]"
    using a by (simp add: lru_set_eq Map_keys_def lru_size_def Map_size_def map_tl)
qed

theorem lru_capacity_bound_witness:
  "(0::nat) < 2
   \<and> lru_size (run_cache_ops (new_LRUCache 2 6)
        [Put ''a'' (1::nat) 0, Put ''b'' 2 1, Get ''a'' 2, Put ''c'' 3 3, Put ''d'' 4 4]) \<le> 2
   \<and> distinct (map fst [(''a'', 1::nat, 0::int), (''b'', 2, 1), (''c'', 3, 2)])
   \<and> length [(''a'', 1::nat, 0::int), (''b'', 2, 1), (''c'', 3, 2)] = 2 + 1
   \<and> lru_size (insert_all (new_LRUCache 2 6) [(''a'', 1::nat, 0), (''b'', 2, 1), (''c'', 3, 2)]) = 2
   \<and> Map_keys (cache (insert_all (new_LRUCache 2 6) [(''a'', 1::nat, 0), (''b'', 2, 1), (''c'', 3, 2)])) = [''b'', ''c'']
   \<and> Map_keys (cache (lru_set
         \<lparr> capacity = 2, cache = [(''b'', \<lparr> val = 2::nat, timestamp = 1 \<rparr>), (''a'', \<lparr> val = 1, timestamp = 0 \<rparr>)], ttl = 21600000 \<rparr>
         3 ''c'' 3))
        = [''a'', ''c'']"
proof -
  let ?kvs = "[(''a'', 1::nat, 0::int), (''b'', 2, 1), (''c'', 3, 2)]"
  let ?c = "\<lparr> capacity = 2, cache = [(''b'', \<lparr> val = 2::nat, timestamp = 1 \<rparr>), (''a'', \<lparr> val = 1, timestamp = 0 \<rparr>)], ttl = 21600000 \<rparr>"
  have pre: "capacity ?c = 2 \<and> distinct (Map_keys (cache ?c)) \<and> lru_size ?c = 2 \<and> ''c'' \<notin> set (Map_keys (cache ?c))"
    by (simp add: Map_keys_def lru_size_def Map_size_def)
  have h: "distinct (map fst ?kvs) \<and> length ?kvs = 2 + 1" by simp
  from lru_capacity_bound[of 2 6 "[Put ''a'' (1::nat) 0, Put ''b'' 2 1, Get ''a'' 2, Put ''c'' 3 3, Put ''d'' 4 4]" ?kvs] h pre
  show ?thesis by (simp add: Map_keys_def)
qed


lemma Map_get_delete: "Map_get (Map_delete m k) k = None"
  unfolding Map_get_def using Map_delete_absent[of k m] by (simp add: map_of_eq_None_iff)

lemma survivors_subseq_keys: "distinct (map fst (cache c)) \<Longrightarrow> distinct (map fst (survivors c key))"
  by (auto simp: survivors_def Let_def Map_keys_def distinct_Map_delete split: list.splits)

text \<open>
  Claim C4. For a key that is present: a \<open>get\<close> more than \<open>ttl\<close> after the entry's
  timestamp answers absent and deletes the entry; a \<open>get\<close> within \<open>ttl\<close> returns the
  value and moves the entry, unchanged, to the end of the order; a \<open>set\<close> puts the new
  entry last, and the key then occurs exactly once (the other entries keep their
  order when the cache was within its capacity).
\<close>

theorem lru_get_set_existing:
  "Map_get (cache c) key = Some item \<Longrightarrow>
     (now - timestamp item > ttl c \<longrightarrow>
        lru_get c now key = (None, c \<lparr> cache := Map_delete (cache c) key \<rparr>)
      \<and> Map_get (cache (snd (lru_get c now key))) key = None)
   \<and> (now - timestamp item \<le> ttl c \<longrightarrow>
        lru_get c now key = (Some (val item), c \<lparr> cache := Map_delete (cache c) key @ [(key, item)] \<rparr>))
   \<and> last (cache (lru_set c now' key v)) = (key, \<lparr> val = v, timestamp = now' \<rparr>)
   \<and> length (filter (\<lambda>kv. fst kv = key) (cache (lru_set c now' key v))) = 1
   \<and> (distinct (Map_keys (cache c)) \<longrightarrow> distinct (Map_keys (cache (lru_set c now' key v))))
   \<and> (lru_size c \<le> capacity c \<longrightarrow>
        cache (lru_set c now' key v) = Map_delete (cache c) key @ [(key, \<lparr> val = v, timestamp = now' \<rparr>)])"
proof (intro conjI impI)
  assume present: "Map_get (cache c) key = Some item"
  have absent: "key \<notin> fst ` set (Map_delete (cache c) key)" by (rule Map_delete_absent)
  {
    assume "now - timestamp item > ttl c"
    then show "lru_get c now key = (None, c \<lparr> cache := Map_delete (cache c) key \<rparr>)"
      using present by (simp add: lru_get_def)
    then show "Map_get (cache (snd (lru_get c now key))) key = None"
      by (simp add: Map_get_delete)
  }
  {
    assume "now - timestamp item \<le> ttl c"
    then show "lru_get c now key = (Some (val item), c \<lparr> cache := Map_delete (cache c) key @ [(key, item)] \<rparr>)"
      using present absent by (simp add: lru_get_def Map_set_absent)
  }
  show "last (cache (lru_set c now' key v)) = (key, \<lparr> val = v, timestamp = now' \<rparr>)"
    by (simp add: lru_set_eq)
  have "filter (\<lambda>kv. fst kv = key) (survivors c key) = []"
    using survivors_absent[of key c] by (auto simp: filter_empty_conv)
  then show "length (filter (\<lambda>kv. fst kv = key) (cache (lru_set c now' key v))) = 1"
    by (simp add: lru_set_eq)
  {
    assume "distinct (Map_keys (cache c))"
    then have "distinct (map fst (survivors c key))" by (simp add: Map_keys_def survivors_subseq_keys)
    then show "distinct (Map_keys (cache (lru_set c now' key v)))"
      using survivors_absent[of key c] by (simp add: lru_set_eq Map_keys_def)
  }
  assume "lru_size c \<le> capacity c"
  moreover have "length (Map_delete (cache c) key) < length (cache c)"
    using present by (intro length_Map_delete_present Map_get_present)
  ultimately have "survivors c key = Map_delete (cache c) key"
    by (simp add: survivors_def Let_def Map_size_def lru_size_def)
  then show "cache (lru_set c now' key v) = Map_delete (cache c) key @ [(key, \<lparr> val = v, timestamp = now' \<rparr>)]"
    by (simp add: lru_set_eq)
qed

theorem lru_get_set_existing_witness:
  "Map_get [(''a'', \<lparr> val = 1::nat, timestamp = 0 \<rparr>), (''b'', \<lparr> val = 2, timestamp = 5 \<rparr>)] ''a''
      = Some \<lparr> val = 1, timestamp = 0 \<rparr>
   \<and> lru_get \<lparr> capacity = 2, cache = [(''a'', \<lparr> val = 1::nat, timestamp = 0 \<rparr>), (''b'', \<lparr> val = 2, timestamp = 5 \<rparr>)], ttl = 10 \<rparr> 11 ''a''
      = (None, \<lparr> capacity = 2, cache = [(''b'', \<lparr> val = 2, timestamp = 5 \<rparr>)], ttl = 10 \<rparr>)
   \<and> lru_get \<lparr> capacity = 2, cache = [(''a'', \<lparr> val = 1::nat, timestamp = 0 \<rparr>), (''b'', \<lparr> val = 2, timestamp = 5 \<rparr>)], ttl = 10 \<rparr> 10 ''a''
      = (Some 1, \<lparr> capacity = 2, cache = [(''b'', \<lparr> val = 2, timestamp = 5 \<rparr>), (''a'', \<lparr> val = 1, timestamp = 0 \<rparr>)], ttl = 10 \<rparr>)
   \<and> cache (lru_set \<lparr> capacity = 2, cache = [(''a'', \<lparr> val = 1::nat, timestamp = 0 \<rparr>), (''b'', \<lparr> val = 2, timestamp = 5 \<rparr>)], ttl = 10 \<rparr> 7 ''a'' 3)
      = [(''b'', \<lparr> val = 2, timestamp = 5 \<rparr>), (''a'', \<lparr> val = 3, timestamp = 7 \<rparr>)]"
proof -
  let ?m = "[(''a'', \<lparr> val = 1::nat, timestamp = 0 \<rparr>), (''b'', \<lparr> val = 2, timestamp = 5 \<rparr>)]"
  let ?c = "\<lparr> capacity = 2, cache = ?m, ttl = 10 \<rparr>"
  have p: "Map_get (cache ?c) ''a'' = Some \<lparr> val = 1, timestamp = 0 \<rparr>" by (simp add: Map_get_def)
  have sz: "lru_size ?c \<le> capacity ?c" by (simp add: lru_size_def Map_size_def)
  from lru_get_set_existing[OF p, of 11 7 3] lru_get_set_existing[OF p, of 10 7 3] sz
  show ?thesis by (simp add: Map_get_def Map_delete_def)
qed

section \<open>Properties of the answer contract\<close>

subsection \<open>Distinct citation domains\<close>

lemma js_split_nonempty: "js_split c s \<noteq> []"
  by (induction s) (auto split: list.splits)

lemma js_join_split: "js_join [c] (js_split c s) = s"
proof (induction s)
  case Nil show ?case by simp
next
  case (Cons x xs)
  obtain p ps where sp: "js_split c xs = p # ps" using js_split_nonempty[of c xs] by (cases "js_split c xs") auto
  show ?case using Cons sp by (cases ps) auto
qed

lemma js_split_single: "length (js_split c s) < 2 \<Longrightarrow> js_split c s = [s]"
proof -
  assume "length (js_split c s) < 2"
  then obtain p where p: "js_split c s = [p]" using js_split_nonempty[of c s]
    by (cases "js_split c s") (auto simp: less_Suc_eq)
  then have "js_join [c] [p] = s" using js_join_split[of c s] by simp
  then show ?thesis using p by simp
qed

lemma add_domain_eq:
  "add_domain U ds c = (case U (url c) of None \<Rightarrow> ds | Some h \<Rightarrow> Set_add ds (registrable_domain h))"
proof (cases "U (url c)")
  case None then show ?thesis by (simp add: add_domain_def)
next
  case (Some h)
  let ?parts = "js_split CHR ''.'' (toLowerCase h)"
  show ?thesis
  proof (cases "length ?parts \<ge> 2")
    case True then show ?thesis using Some by (simp add: add_domain_def Let_def registrable_domain_def)
  next
    case False
    then have "?parts = [toLowerCase h]" by (intro js_split_single) simp
    then show ?thesis using Some False by (simp add: add_domain_def Let_def registrable_domain_def slice_last_def)
  qed
qed

lemma foldl_add_domain:
  "distinct ds \<Longrightarrow> distinct (foldl (add_domain U) ds cs) \<and>
     set (foldl (add_domain U) ds cs) = set ds \<union> registrable_domains U cs"
proof (induction cs arbitrary: ds)
  case Nil then show ?case by (simp add: registrable_domains_def)
next
  case (Cons c cs)
  have d: "distinct (add_domain U ds c)" using Cons.prems
    by (simp add: add_domain_eq Set_add_def split: option.splits)
  have s: "set (add_domain U ds c) = set ds \<union> registrable_domains U [c]"
    by (auto simp: add_domain_eq Set_add_def registrable_domains_def split: option.splits)
  have u: "registrable_domains U (c # cs) = registrable_domains U [c] \<union> registrable_domains U cs"
    by (auto simp: registrable_domains_def)
  from Cons.IH[OF d] show ?case by (simp add: s u Un_assoc)
qed

lemma distinctDomainsOK_card:
  "distinctDomainsOK U cs \<longleftrightarrow> length cs \<ge> 2 \<and> card (registrable_domains U cs) \<ge> 2"
proof -
  have "distinct (foldl (add_domain U) [] cs)" "set (foldl (add_domain U) [] cs) = registrable_domains U cs"
    using foldl_add_domain[of "[]" U cs] by auto
  then have "card (registrable_domains U cs) = length (foldl (add_domain U) [] cs)"
    by (metis distinct_card)
  then show ?thesis by (auto simp: distinctDomainsOK_def Set_size_def)
qed

text \<open>
  Claim C7. \<open>distinctDomainsOK\<close> holds exactly when there are at least two citations
  and the registrable domains of the citations whose URL parses (the last two
  dot-separated labels of the hostname) number at least two. Given the hostnames the
  URL constructor extracts, the pair \<^verbatim>\<open>https://support.example.com\<close>,
  \<^verbatim>\<open>https://docs.example.com\<close> is rejected and the pair \<^verbatim>\<open>https://example.com\<close>,
  \<^verbatim>\<open>https://different.org\<close> is accepted.
\<close>

theorem distinctDomainsOK_iff:
  "(distinctDomainsOK U cs \<longleftrightarrow> length cs \<ge> 2 \<and> card (registrable_domains U cs) \<ge> 2)
   \<and> (U ''https://support.example.com'' = Some ''support.example.com''
        \<and> U ''https://docs.example.com'' = Some ''docs.example.com'' \<longrightarrow>
      \<not> distinctDomainsOK U
          [\<lparr> url = ''https://support.example.com'', citation_title = t1, quote = q1 \<rparr>,
           \<lparr> url = ''https://docs.example.com'', citation_title = t2, quote = q2 \<rparr>])
   \<and> (U ''https://example.com'' = Some ''example.com''
        \<and> U ''https://different.org'' = Some ''different.org'' \<longrightarrow>
      distinctDomainsOK U
          [\<lparr> url = ''https://example.com'', citation_title = t1, quote = q1 \<rparr>,
           \<lparr> url = ''https://different.org'', citation_title = t2, quote = q2 \<rparr>])"
proof (intro conjI impI)
  show "distinctDomainsOK U cs \<longleftrightarrow> length cs \<ge> 2 \<and> card (registrable_domains U cs) \<ge> 2"
    by (rule distinctDomainsOK_card)
next
  assume "U ''https://support.example.com'' = Some ''support.example.com''
        \<and> U ''https://docs.example.com'' = Some ''docs.example.com''"
  then show "\<not> distinctDomainsOK U
          [\<lparr> url = ''https://support.example.com'', citation_title = t1, quote = q1 \<rparr>,
           \<lparr> url = ''https://docs.example.com'', citation_title = t2, quote = q2 \<rparr>]"
    by (simp add: distinctDomainsOK_def add_domain_def Let_def toLowerCase_def slice_last_def Set_add_def Set_size_def)
next
  assume "U ''https://example.com'' = Some ''example.com''
        \<and> U ''https://different.org'' = Some ''different.org''"
  then show "distinctDomainsOK U
          [\<lparr> url = ''https://example.com'', citation_title = t1, quote = q1 \<rparr>,
           \<lparr> url = ''https://different.org'', citation_title = t2, quote = q2 \<rparr>]"
    by (simp add: distinctDomainsOK_def add_domain_def Let_def toLowerCase_def slice_last_def Set_add_def Set_size_def)
qed

theorem distinctDomainsOK_iff_witness:
  "example_hosts ''https://support.example.com'' = Some ''support.example.com''
   \<and> example_hosts ''https://docs.example.com'' = Some ''docs.example.com''
   \<and> example_hosts ''https://example.com'' = Some ''example.com''
   \<and> example_hosts ''https://different.org'' = Some ''different.org''
   \<and> \<not> distinctDomainsOK example_hosts
          [\<lparr> url = ''https://support.example.com'', citation_title = ''a'', quote = ''b'' \<rparr>,
           \<lparr> url = ''https://docs.example.com'', citation_title = ''c'', quote = ''d'' \<rparr>]
   \<and> distinctDomainsOK example_hosts
          [\<lparr> url = ''https://example.com'', citation_title = ''a'', quote = ''b'' \<rparr>,
           \<lparr> url = ''https://different.org'', citation_title = ''c'', quote = ''d'' \<rparr>]"
proof -
  have h: "example_hosts ''https://support.example.com'' = Some ''support.example.com''"
     "example_hosts ''https://docs.example.com'' = Some ''docs.example.com''"
     "example_hosts ''https://example.com'' = Some ''example.com''"
     "example_hosts ''https://different.org'' = Some ''different.org''"
    by (simp_all add: example_hosts_def)
  from distinctDomainsOK_iff[of example_hosts "[]" "''a''" "''b''" "''c''" "''d''"] h
  show ?thesis by simp
qed

subsection \<open>Clamping\<close>

lemma bindE_Inr [simp]: "bindE (Inr x) f = f x" by (simp add: bindE_def)
lemma bindE_Inl [simp]: "bindE (Inl e) f = Inl e" by (simp add: bindE_def)
lemma bindE_eq_Inr: "bindE m f = Inr y \<longleftrightarrow> (\<exists>x. m = Inr x \<and> f x = Inr y)"
  by (cases m) auto

lemma map_of_Map_set: "map_of (Map_set kvs k v) k' = (if k' = k then Some v else map_of kvs k')"
  by (induction kvs) auto

lemma js_prop_with_prop:
  "js_prop (JObj (with_prop kvs k v)) k' = (if k' = k then v else js_prop (JObj kvs) k')"
  by (simp add: js_prop_def with_prop_def map_of_Map_set)

lemma js_prop_spread: "is_object x \<Longrightarrow> js_prop (JObj (js_spread x)) k = js_prop x k"
  by (cases x) (simp_all add: js_spread_def is_object_def)

lemma js_get_Inr: "js_get x k = Inr v \<longleftrightarrow> x \<noteq> JUndefined \<and> x \<noteq> JNull \<and> v = js_prop x k"
  by (cases x) (auto simp: js_get_def)

lemma js_get_object: "is_object x \<Longrightarrow> js_get x k = Inr (js_prop x k)"
  by (cases x) (auto simp: js_get_def is_object_def)

lemma js_substring_Inr: "js_substring n x = Inr y \<longleftrightarrow> truncated n x y"
  by (cases x) (auto simp: js_substring_def truncated_def)

lemma truncated_is_object: "truncated n (js_prop x k) y \<Longrightarrow> is_object x"
  by (cases x) (auto simp: truncated_def js_prop_def is_object_def)

lemma mapE_Inr: "mapE f xs = Inr ys \<longleftrightarrow> list_all2 (\<lambda>x y. f x = Inr y) xs ys"
proof (induction xs arbitrary: ys)
  case Nil show ?case by auto
next
  case (Cons x xs)
  show ?case by (cases ys) (auto simp: bindE_eq_Inr Cons)
qed

lemma js_map_Inr: "js_map f x = Inr y \<longleftrightarrow> elementwise (\<lambda>a b. f a = Inr b) x y"
  by (cases x; cases y) (auto simp: js_map_def elementwise_def bindE_eq_Inr mapE_Inr)

lemma elementwise_is_object: "elementwise R (js_prop x k) y \<Longrightarrow> is_object x"
  by (cases x) (auto simp: elementwise_def js_prop_def is_object_def)

lemma elementwise_mono: "elementwise R x y \<Longrightarrow> (\<And>a b. R a b \<Longrightarrow> S a b) \<Longrightarrow> elementwise S x y"
  by (auto simp: elementwise_def split: jsval.splits elim: list_all2_mono)

lemma elementwise_length: "elementwise R x y \<Longrightarrow> length (elems y) = length (elems x)"
  by (auto simp: elementwise_def elems_def split: jsval.splits dest: list_all2_lengthD)

lemma js_opt_map_Inr:
  "js_opt_map f x = Inr y \<longleftrightarrow> ((x = JUndefined \<or> x = JNull) \<and> y = JUndefined) \<or> elementwise (\<lambda>a b. f a = Inr b) x y"
  by (cases x) (auto simp: js_opt_map_def js_map_Inr elementwise_def)

lemma js_opt_map_substring: "js_opt_map (js_substring n) x = Inr y \<longleftrightarrow> 
   ((x = JUndefined \<or> x = JNull) \<and> y = JUndefined) \<or> elementwise (truncated n) x y"
  by (simp add: js_opt_map_Inr js_substring_Inr)

text \<open>What a successful clamp of one element says.\<close>

lemma clampStep_Inr:
  assumes "clampStep s = Inr s'"
  shows "\<exists>t d sh. truncated 150 (js_prop s ''title'') t \<and> truncated 800 (js_prop s ''detail'') d
        \<and> shell_truncated (js_prop s ''shell'') sh
        \<and> s' = JObj (with_prop (with_prop (with_prop (js_spread s) ''title'' t) ''detail'' d) ''shell'' sh)"
  using assms unfolding clampStep_def bindE_eq_Inr js_get_Inr js_opt_map_substring js_substring_Inr shell_truncated_def
  by blast

lemma clampDecision_Inr:
  assumes "clampDecision s = Inr s'"
  shows "\<exists>i t. truncated 200 (js_prop s ''if'') i \<and> truncated 300 (js_prop s ''then'') t
        \<and> s' = JObj (with_prop (with_prop (js_spread s) ''if'' i) ''then'' t)"
  using assms unfolding clampDecision_def bindE_eq_Inr js_get_Inr js_substring_Inr
  by blast

lemma clampDiagram_Inr:
  assumes "clampDiagram s = Inr s'"
  shows "\<exists>c g. truncated 200 (js_prop s ''caption'') c \<and> truncated 10000 (js_prop s ''svg'') g
        \<and> s' = JObj (with_prop (with_prop (js_spread s) ''caption'' c) ''svg'' g)"
  using assms unfolding clampDiagram_def bindE_eq_Inr js_get_Inr js_substring_Inr
  by blast

lemma clampCitation_Inr:
  assumes "clampCitation s = Inr s'"
  shows "\<exists>t q. truncated 200 (js_prop s ''title'') t \<and> truncated 180 (js_prop s ''quote'') q
        \<and> s' = JObj (with_prop (with_prop (js_spread s) ''title'' t) ''quote'' q)"
  using assms unfolding clampCitation_def bindE_eq_Inr js_get_Inr js_substring_Inr
  by blast

lemma clampAnswer_Inr:
  assumes "clampAnswer a = Inr a'"
  shows "\<exists>t s pr st dt dg ci w.
        truncated 200 (js_prop a ''answer_title'') t
      \<and> truncated 1000 (js_prop a ''one_paragraph_summary'') s
      \<and> elementwise (truncated 300) (js_prop a ''prereqs'') pr
      \<and> elementwise (\<lambda>x y. clampStep x = Inr y) (js_prop a ''steps'') st
      \<and> elementwise (\<lambda>x y. clampDecision x = Inr y) (js_prop a ''decision_tree'') dt
      \<and> elementwise (\<lambda>x y. clampDiagram x = Inr y) (js_prop a ''diagrams'') dg
      \<and> elementwise (\<lambda>x y. clampCitation x = Inr y) (js_prop a ''citations'') ci
      \<and> elementwise (truncated 300) (js_prop a ''warnings'') w
      \<and> a' = JObj (with_prop (with_prop (with_prop (with_prop (with_prop (with_prop (with_prop (with_prop
                  (js_spread a)
                  ''answer_title'' t)
                  ''one_paragraph_summary'' s)
                  ''prereqs'' pr)
                  ''steps'' st)
                  ''decision_tree'' dt)
                  ''diagrams'' dg)
                  ''citations'' ci)
                  ''warnings'' w)"
  using assms unfolding clampAnswer_def bindE_eq_Inr js_get_Inr js_map_Inr js_substring_Inr
  by blast


subsection \<open>clamp returns on every value of type Answer\<close>

lemma mapE_total: "(\<And>x. x \<in> set xs \<Longrightarrow> \<exists>y. f x = Inr y) \<Longrightarrow> \<exists>ys. mapE f xs = Inr ys"
proof (induction xs)
  case Nil show ?case by simp
next
  case (Cons x xs)
  obtain y where y: "f x = Inr y" using Cons.prems[of x] by auto
  obtain ys where ys: "mapE f xs = Inr ys" using Cons.IH Cons.prems by auto
  show ?case by (simp add: y ys)
qed

lemma js_map_total:
  "is_array_of P v \<Longrightarrow> (\<And>x. P x \<Longrightarrow> \<exists>y. f x = Inr y) \<Longrightarrow> \<exists>y. js_map f v = Inr y"
proof -
  assume a: "is_array_of P v" and f: "\<And>x. P x \<Longrightarrow> \<exists>y. f x = Inr y"
  then obtain xs where v: "v = JArr xs" and all: "list_all P xs"
    by (cases v) (auto simp: is_array_of_def)
  have "\<exists>ys. mapE f xs = Inr ys" using all f by (intro mapE_total) (auto simp: list_all_iff)
  then show ?thesis by (auto simp: v js_map_def)
qed

lemma js_substring_total: "is_string x \<Longrightarrow> \<exists>y. js_substring n x = Inr y"
  by (cases x) (auto simp: is_string_def js_substring_def)

lemma field_substring_total:
  "is_object x \<Longrightarrow> is_string (js_prop x k) \<Longrightarrow> \<exists>y. bindE (js_get x k) (js_substring n) = Inr y"
  by (simp add: js_get_object js_substring_total)

lemma clampStep_total: "is_Step s \<Longrightarrow> \<exists>s'. clampStep s = Inr s'"
proof -
  assume s: "is_Step s"
  then have o: "is_object s" by (simp add: is_Step_def)
  obtain t where t: "bindE (js_get s ''title'') (js_substring 150) = Inr t"
    using field_substring_total[OF o, of "''title''"] s by (auto simp: is_Step_def)
  obtain d where d: "bindE (js_get s ''detail'') (js_substring 800) = Inr d"
    using field_substring_total[OF o, of "''detail''"] s by (auto simp: is_Step_def)
  have "is_optional (is_array_of is_string) (js_prop s ''shell'')" using s by (simp add: is_Step_def)
  then have "\<exists>sh. js_opt_map (js_substring 200) (js_prop s ''shell'') = Inr sh"
  proof (cases "js_prop s ''shell'' = JUndefined")
    case True then show ?thesis by (simp add: js_opt_map_def)
  next
    case False
    assume "is_optional (is_array_of is_string) (js_prop s ''shell'')"
    then have arr: "is_array_of is_string (js_prop s ''shell'')" using False by (simp add: is_optional_def)
    then obtain y where "js_map (js_substring 200) (js_prop s ''shell'') = Inr y"
      using js_map_total[OF arr, of "js_substring 200"] js_substring_total by blast
    then show ?thesis using arr by (cases "js_prop s ''shell''") (auto simp: js_opt_map_def is_array_of_def)
  qed
  then obtain sh where sh: "bindE (js_get s ''shell'') (js_opt_map (js_substring 200)) = Inr sh"
    by (auto simp: js_get_object[OF o])
  show ?thesis unfolding clampStep_def by (simp add: t d sh)
qed

lemma clampDecision_total: "is_Decision s \<Longrightarrow> \<exists>s'. clampDecision s = Inr s'"
proof -
  assume s: "is_Decision s"
  then have o: "is_object s" by (simp add: is_Decision_def)
  obtain t where t: "bindE (js_get s ''if'') (js_substring 200) = Inr t"
    using field_substring_total[OF o, of "''if''"] s by (auto simp: is_Decision_def)
  obtain d where d: "bindE (js_get s ''then'') (js_substring 300) = Inr d"
    using field_substring_total[OF o, of "''then''"] s by (auto simp: is_Decision_def)
  show ?thesis unfolding clampDecision_def by (simp add: t d)
qed

lemma clampDiagram_total: "is_Diagram s \<Longrightarrow> \<exists>s'. clampDiagram s = Inr s'"
proof -
  assume s: "is_Diagram s"
  then have o: "is_object s" by (simp add: is_Diagram_def)
  obtain t where t: "bindE (js_get s ''caption'') (js_substring 200) = Inr t"
    using field_substring_total[OF o, of "''caption''"] s by (auto simp: is_Diagram_def)
  obtain d where d: "bindE (js_get s ''svg'') (js_substring 10000) = Inr d"
    using field_substring_total[OF o, of "''svg''"] s by (auto simp: is_Diagram_def)
  show ?thesis unfolding clampDiagram_def by (simp add: t d)
qed

lemma clampCitation_total: "is_Citation s \<Longrightarrow> \<exists>s'. clampCitation s = Inr s'"
proof -
  assume s: "is_Citation s"
  then have o: "is_object s" by (simp add: is_Citation_def)
  obtain t where t: "bindE (js_get s ''title'') (js_substring 200) = Inr t"
    using field_substring_total[OF o, of "''title''"] s by (auto simp: is_Citation_def)
  obtain d where d: "bindE (js_get s ''quote'') (js_substring 180) = Inr d"
    using field_substring_total[OF o, of "''quote''"] s by (auto simp: is_Citation_def)
  show ?thesis unfolding clampCitation_def by (simp add: t d)
qed

lemma field_map_total:
  "is_object x \<Longrightarrow> is_array_of P (js_prop x k) \<Longrightarrow> (\<And>v. P v \<Longrightarrow> \<exists>y. f v = Inr y)
     \<Longrightarrow> \<exists>y. bindE (js_get x k) (js_map f) = Inr y"
  using js_map_total[of P "js_prop x k" f] by (simp add: js_get_object)

lemma clampAnswer_total: "is_Answer a \<Longrightarrow> \<exists>a'. clampAnswer a = Inr a'"
proof -
  assume a: "is_Answer a"
  then have o: "is_object a" by (simp add: is_Answer_def)
  obtain t where t: "bindE (js_get a ''answer_title'') (js_substring 200) = Inr t"
    using field_substring_total[OF o, of "''answer_title''"] a by (auto simp: is_Answer_def)
  obtain s where s: "bindE (js_get a ''one_paragraph_summary'') (js_substring 1000) = Inr s"
    using field_substring_total[OF o, of "''one_paragraph_summary''"] a by (auto simp: is_Answer_def)
  obtain pr where pr: "bindE (js_get a ''prereqs'') (js_map (js_substring 300)) = Inr pr"
    using field_map_total[OF o, of is_string "''prereqs''" "js_substring 300"] a js_substring_total
    by (auto simp: is_Answer_def)
  obtain st where st: "bindE (js_get a ''steps'') (js_map clampStep) = Inr st"
    using field_map_total[OF o, of is_Step "''steps''" clampStep] a clampStep_total
    by (auto simp: is_Answer_def)
  obtain dt where dt: "bindE (js_get a ''decision_tree'') (js_map clampDecision) = Inr dt"
    using field_map_total[OF o, of is_Decision "''decision_tree''" clampDecision] a clampDecision_total
    by (auto simp: is_Answer_def)
  obtain dg where dg: "bindE (js_get a ''diagrams'') (js_map clampDiagram) = Inr dg"
    using field_map_total[OF o, of is_Diagram "''diagrams''" clampDiagram] a clampDiagram_total
    by (auto simp: is_Answer_def)
  obtain ci where ci: "bindE (js_get a ''citations'') (js_map clampCitation) = Inr ci"
    using field_map_total[OF o, of is_Citation "''citations''" clampCitation] a clampCitation_total
    by (auto simp: is_Answer_def)
  obtain w where w: "bindE (js_get a ''warnings'') (js_map (js_substring 300)) = Inr w"
    using field_map_total[OF o, of is_string "''warnings''" "js_substring 300"] a js_substring_total
    by (auto simp: is_Answer_def)
  show ?thesis unfolding clampAnswer_def by (simp add: t s pr st dt dg ci w)
qed

lemma shell_truncated_length: "shell_truncated old new \<Longrightarrow> length (elems new) = length (elems old)"
  by (auto simp: shell_truncated_def elems_def dest: elementwise_length)

lemma same_butI: "is_object old \<Longrightarrow> is_object new \<Longrightarrow> (\<And>k. k \<notin> set ks \<Longrightarrow> js_prop new k = js_prop old k) \<Longrightarrow> same_but ks old new"
  by (simp add: same_but_def)

lemma is_object_JObj [simp]: "is_object (JObj kvs)" by (simp add: is_object_def)

lemma clampStep_frame:
  assumes "clampStep s = Inr s'"
  shows "js_prop s' ''os'' = js_prop s ''os''"
    and "js_prop s' ''est_minutes'' = js_prop s ''est_minutes''"
    and "length (elems (js_prop s' ''shell'')) = length (elems (js_prop s ''shell''))"
    and "same_but [''title'', ''detail'', ''shell''] s s'"
proof -
  from clampStep_Inr[OF assms] obtain t d sh where
    t: "truncated 150 (js_prop s ''title'') t" and d: "truncated 800 (js_prop s ''detail'') d"
    and sh: "shell_truncated (js_prop s ''shell'') sh"
    and s': "s' = JObj (with_prop (with_prop (with_prop (js_spread s) ''title'' t) ''detail'' d) ''shell'' sh)"
    by blast
  have o: "is_object s" using t by (rule truncated_is_object)
  show "js_prop s' ''os'' = js_prop s ''os''" by (simp add: s' js_prop_with_prop js_prop_spread[OF o])
  show "js_prop s' ''est_minutes'' = js_prop s ''est_minutes''" by (simp add: s' js_prop_with_prop js_prop_spread[OF o])
  show "length (elems (js_prop s' ''shell'')) = length (elems (js_prop s ''shell''))"
    using shell_truncated_length[OF sh] by (simp add: s' js_prop_with_prop)
  show "same_but [''title'', ''detail'', ''shell''] s s'"
    using o by (intro same_butI) (simp_all add: s' js_prop_with_prop js_prop_spread[OF o])
qed

lemma clampDecision_frame:
  assumes "clampDecision s = Inr s'"
  shows "js_prop s' ''link_step'' = js_prop s ''link_step''"
    and "same_but [''if'', ''then''] s s'"
proof -
  from clampDecision_Inr[OF assms] obtain i t where
    i: "truncated 200 (js_prop s ''if'') i"
    and s': "s' = JObj (with_prop (with_prop (js_spread s) ''if'' i) ''then'' t)"
    by blast
  have o: "is_object s" using i by (rule truncated_is_object)
  show "js_prop s' ''link_step'' = js_prop s ''link_step''" by (simp add: s' js_prop_with_prop js_prop_spread[OF o])
  show "same_but [''if'', ''then''] s s'"
    using o by (intro same_butI) (simp_all add: s' js_prop_with_prop js_prop_spread[OF o])
qed

lemma clampDiagram_frame:
  assumes "clampDiagram s = Inr s'"
  shows "same_but [''caption'', ''svg''] s s'"
proof -
  from clampDiagram_Inr[OF assms] obtain c g where
    c: "truncated 200 (js_prop s ''caption'') c"
    and s': "s' = JObj (with_prop (with_prop (js_spread s) ''caption'' c) ''svg'' g)"
    by blast
  have o: "is_object s" using c by (rule truncated_is_object)
  show ?thesis
    using o by (intro same_butI) (simp_all add: s' js_prop_with_prop js_prop_spread[OF o])
qed

lemma clampCitation_frame:
  assumes "clampCitation s = Inr s'"
  shows "js_prop s' ''url'' = js_prop s ''url''"
    and "same_but [''title'', ''quote''] s s'"
proof -
  from clampCitation_Inr[OF assms] obtain t q where
    t: "truncated 200 (js_prop s ''title'') t"
    and s': "s' = JObj (with_prop (with_prop (js_spread s) ''title'' t) ''quote'' q)"
    by blast
  have o: "is_object s" using t by (rule truncated_is_object)
  show "js_prop s' ''url'' = js_prop s ''url''" by (simp add: s' js_prop_with_prop js_prop_spread[OF o])
  show "same_but [''title'', ''quote''] s s'"
    using o by (intro same_butI) (simp_all add: s' js_prop_with_prop js_prop_spread[OF o])
qed

text \<open>The properties of a clamped answer, read off the object that clamp builds.\<close>

lemma clampAnswer_props:
  assumes "clampAnswer a = Inr a'"
  shows "truncated 200 (js_prop a ''answer_title'') (js_prop a' ''answer_title'')"
    and "truncated 1000 (js_prop a ''one_paragraph_summary'') (js_prop a' ''one_paragraph_summary'')"
    and "elementwise (truncated 300) (js_prop a ''prereqs'') (js_prop a' ''prereqs'')"
    and "elementwise (\<lambda>x y. clampStep x = Inr y) (js_prop a ''steps'') (js_prop a' ''steps'')"
    and "elementwise (\<lambda>x y. clampDecision x = Inr y) (js_prop a ''decision_tree'') (js_prop a' ''decision_tree'')"
    and "elementwise (\<lambda>x y. clampDiagram x = Inr y) (js_prop a ''diagrams'') (js_prop a' ''diagrams'')"
    and "elementwise (\<lambda>x y. clampCitation x = Inr y) (js_prop a ''citations'') (js_prop a' ''citations'')"
    and "elementwise (truncated 300) (js_prop a ''warnings'') (js_prop a' ''warnings'')"
    and "same_but [''answer_title'', ''one_paragraph_summary'', ''prereqs'', ''steps'',
                   ''decision_tree'', ''diagrams'', ''citations'', ''warnings''] a a'"
proof -
  from clampAnswer_Inr[OF assms] obtain t s pr st dt dg ci w where
    f: "truncated 200 (js_prop a ''answer_title'') t"
       "truncated 1000 (js_prop a ''one_paragraph_summary'') s"
       "elementwise (truncated 300) (js_prop a ''prereqs'') pr"
       "elementwise (\<lambda>x y. clampStep x = Inr y) (js_prop a ''steps'') st"
       "elementwise (\<lambda>x y. clampDecision x = Inr y) (js_prop a ''decision_tree'') dt"
       "elementwise (\<lambda>x y. clampDiagram x = Inr y) (js_prop a ''diagrams'') dg"
       "elementwise (\<lambda>x y. clampCitation x = Inr y) (js_prop a ''citations'') ci"
       "elementwise (truncated 300) (js_prop a ''warnings'') w"
    and a': "a' = JObj (with_prop (with_prop (with_prop (with_prop (with_prop (with_prop (with_prop (with_prop
                  (js_spread a)
                  ''answer_title'' t)
                  ''one_paragraph_summary'' s)
                  ''prereqs'' pr)
                  ''steps'' st)
                  ''decision_tree'' dt)
                  ''diagrams'' dg)
                  ''citations'' ci)
                  ''warnings'' w)"
    by blast
  have o: "is_object a" using f(1) by (rule truncated_is_object)
  have p: "js_prop a' ''answer_title'' = t" "js_prop a' ''one_paragraph_summary'' = s"
    "js_prop a' ''prereqs'' = pr" "js_prop a' ''steps'' = st" "js_prop a' ''decision_tree'' = dt"
    "js_prop a' ''diagrams'' = dg" "js_prop a' ''citations'' = ci" "js_prop a' ''warnings'' = w"
    by (simp_all add: a' js_prop_with_prop)
  show "truncated 200 (js_prop a ''answer_title'') (js_prop a' ''answer_title'')"
    and "truncated 1000 (js_prop a ''one_paragraph_summary'') (js_prop a' ''one_paragraph_summary'')"
    and "elementwise (truncated 300) (js_prop a ''prereqs'') (js_prop a' ''prereqs'')"
    and "elementwise (\<lambda>x y. clampStep x = Inr y) (js_prop a ''steps'') (js_prop a' ''steps'')"
    and "elementwise (\<lambda>x y. clampDecision x = Inr y) (js_prop a ''decision_tree'') (js_prop a' ''decision_tree'')"
    and "elementwise (\<lambda>x y. clampDiagram x = Inr y) (js_prop a ''diagrams'') (js_prop a' ''diagrams'')"
    and "elementwise (\<lambda>x y. clampCitation x = Inr y) (js_prop a ''citations'') (js_prop a' ''citations'')"
    and "elementwise (truncated 300) (js_prop a ''warnings'') (js_prop a' ''warnings'')"
    unfolding p using f by blast+
  show "same_but [''answer_title'', ''one_paragraph_summary'', ''prereqs'', ''steps'',
                   ''decision_tree'', ''diagrams'', ''citations'', ''warnings''] a a'"
    using o by (intro same_butI) (simp_all add: a' js_prop_with_prop js_prop_spread[OF o])
qed

text \<open>
  Claim C10. On every value of type \<^verbatim>\<open>Answer\<close>, \<open>clampAnswer\<close> returns, and the
  result has the same number of elements in \<^verbatim>\<open>prereqs\<close>, \<^verbatim>\<open>steps\<close>,
  \<^verbatim>\<open>decision_tree\<close>, \<^verbatim>\<open>diagrams\<close>, \<^verbatim>\<open>citations\<close> and \<^verbatim>\<open>warnings\<close>, and in
  the \<^verbatim>\<open>shell\<close> list of each step; each step keeps its \<^verbatim>\<open>os\<close> and
  \<^verbatim>\<open>est_minutes\<close>, each decision its \<^verbatim>\<open>link_step\<close>, each citation its
  \<^verbatim>\<open>url\<close>; indeed every property other than the clamped strings is unchanged. So a
  citation count out of bounds or a malformed URL is still there after clamping.
\<close>

theorem clampAnswer_frame:
  "is_Answer a \<Longrightarrow>
   \<exists>a'. clampAnswer a = Inr a'
     \<and> length (elems (js_prop a' ''prereqs'')) = length (elems (js_prop a ''prereqs''))
     \<and> length (elems (js_prop a' ''steps'')) = length (elems (js_prop a ''steps''))
     \<and> length (elems (js_prop a' ''decision_tree'')) = length (elems (js_prop a ''decision_tree''))
     \<and> length (elems (js_prop a' ''diagrams'')) = length (elems (js_prop a ''diagrams''))
     \<and> length (elems (js_prop a' ''citations'')) = length (elems (js_prop a ''citations''))
     \<and> length (elems (js_prop a' ''warnings'')) = length (elems (js_prop a ''warnings''))
     \<and> elementwise (\<lambda>s s'. js_prop s' ''os'' = js_prop s ''os''
                         \<and> js_prop s' ''est_minutes'' = js_prop s ''est_minutes''
                         \<and> length (elems (js_prop s' ''shell'')) = length (elems (js_prop s ''shell''))
                         \<and> same_but [''title'', ''detail'', ''shell''] s s')
          (js_prop a ''steps'') (js_prop a' ''steps'')
     \<and> elementwise (\<lambda>d d'. js_prop d' ''link_step'' = js_prop d ''link_step''
                         \<and> same_but [''if'', ''then''] d d')
          (js_prop a ''decision_tree'') (js_prop a' ''decision_tree'')
     \<and> elementwise (same_but [''caption'', ''svg''])
          (js_prop a ''diagrams'') (js_prop a' ''diagrams'')
     \<and> elementwise (\<lambda>c c'. js_prop c' ''url'' = js_prop c ''url''
                         \<and> same_but [''title'', ''quote''] c c')
          (js_prop a ''citations'') (js_prop a' ''citations'')
     \<and> same_but [''answer_title'', ''one_paragraph_summary'', ''prereqs'', ''steps'',
                  ''decision_tree'', ''diagrams'', ''citations'', ''warnings''] a a'"
proof -
  assume "is_Answer a"
  then obtain a' where c: "clampAnswer a = Inr a'" using clampAnswer_total by blast
  note p = clampAnswer_props[OF c]
  have "elementwise (\<lambda>s s'. js_prop s' ''os'' = js_prop s ''os''
                         \<and> js_prop s' ''est_minutes'' = js_prop s ''est_minutes''
                         \<and> length (elems (js_prop s' ''shell'')) = length (elems (js_prop s ''shell''))
                         \<and> same_but [''title'', ''detail'', ''shell''] s s')
          (js_prop a ''steps'') (js_prop a' ''steps'')"
    using p(4) by (rule elementwise_mono) (simp add: clampStep_frame)
  moreover have "elementwise (\<lambda>d d'. js_prop d' ''link_step'' = js_prop d ''link_step''
                         \<and> same_but [''if'', ''then''] d d')
          (js_prop a ''decision_tree'') (js_prop a' ''decision_tree'')"
    using p(5) by (rule elementwise_mono) (simp add: clampDecision_frame)
  moreover have "elementwise (same_but [''caption'', ''svg''])
          (js_prop a ''diagrams'') (js_prop a' ''diagrams'')"
    using p(6) by (rule elementwise_mono) (simp add: clampDiagram_frame)
  moreover have "elementwise (\<lambda>c c'. js_prop c' ''url'' = js_prop c ''url''
                         \<and> same_but [''title'', ''quote''] c c')
          (js_prop a ''citations'') (js_prop a' ''citations'')"
    using p(7) by (rule elementwise_mono) (simp add: clampCitation_frame)
  ultimately show ?thesis
    using c p(9) elementwise_length[OF p(3)] elementwise_length[OF p(4)] elementwise_length[OF p(5)]
      elementwise_length[OF p(6)] elementwise_length[OF p(7)] elementwise_length[OF p(8)]
    by blast
qed

theorem clampAnswer_frame_witness:
  "is_Answer untidy_answer
   \<and> (\<exists>a'. clampAnswer untidy_answer = Inr a'
         \<and> length (elems (js_prop a' ''citations'')) = 1
         \<and> (\<exists>c'. js_prop a' ''citations'' = JArr [c'] \<and> js_prop c' ''url'' = JStr ''not-a-url''))"
proof -
  have h: "is_Answer untidy_answer"
    by (simp add: untidy_answer_def is_Answer_def is_Step_def is_Decision_def is_Citation_def
        is_object_def is_string_def is_number_def is_array_of_def is_optional_def is_os_def
        os_of_string_def js_prop_def)
  have ci: "js_prop untidy_answer ''citations''
      = JArr [JObj [(''url'', JStr ''not-a-url''), (''title'', JStr ''Guide''),
                    (''quote'', JStr (replicate 200 CHR ''q''))]]"
    by (simp add: untidy_answer_def js_prop_def)
  from clampAnswer_frame[OF h] obtain a' where
    c: "clampAnswer untidy_answer = Inr a'"
    and l: "length (elems (js_prop a' ''citations'')) = length (elems (js_prop untidy_answer ''citations''))"
    and e: "elementwise (\<lambda>c c'. js_prop c' ''url'' = js_prop c ''url'' \<and> same_but [''title'', ''quote''] c c')
              (js_prop untidy_answer ''citations'') (js_prop a' ''citations'')"
    by blast
  from e obtain c' where "js_prop a' ''citations'' = JArr [c']" "js_prop c' ''url'' = JStr ''not-a-url''"
    unfolding ci by (cases "js_prop a' ''citations''") (auto simp: elementwise_def list_all2_Cons1 js_prop_def)
  then show ?thesis using h c l by (auto simp: ci elems_def)
qed












section \<open>Properties of the page-fetch tool\<close>


lemma replace_runs_id: "\<forall>c \<in> set s. \<not> P c \<Longrightarrow> replace_runs P s = s"
  by (induction s) auto

lemma js_trim_id: "\<forall>c \<in> set s. \<not> js_space c \<Longrightarrow> js_trim s = s"
proof -
  assume a: "\<forall>c \<in> set s. \<not> js_space c"
  then have 1: "dropWhile js_space s = s" by (cases s) auto
  from a have "dropWhile js_space (rev s) = rev s" by (cases "rev s") (auto simp: )
  then show ?thesis by (simp add: js_trim_def 1)
qed





section \<open>Properties of the orchestrator\<close>

subsection \<open>The round ceiling\<close>

declare tool_loop.simps [simp del]

lemma tool_loop_done: "\<not> n < maxToolCalls \<Longrightarrow> tool_loop env messages n = ([], Inr ([], messages))"
  by (subst tool_loop.simps) simp

lemma tool_loop_error:
  "n < maxToolCalls \<Longrightarrow> chat_create env (tool_request messages) = Inl e \<Longrightarrow>
   tool_loop env messages n = ([tool_request messages], Inl e)"
  by (subst tool_loop.simps) simp

lemma tool_loop_no_choice:
  "n < maxToolCalls \<Longrightarrow> chat_create env (tool_request messages) = Inr None \<Longrightarrow>
   tool_loop env messages n = ([tool_request messages], Inl (Error ''No response from OpenAI''))"
  by (subst tool_loop.simps) simp

lemma tool_loop_final:
  "n < maxToolCalls \<Longrightarrow> chat_create env (tool_request messages) = Inr (Some m) \<Longrightarrow>
   tool_calls m = None \<or> tool_calls m = Some [] \<Longrightarrow>
   tool_loop env messages n =
     ([tool_request messages],
      Inr (case content m of None \<Rightarrow> [] | Some c \<Rightarrow> c, messages @ [AssistantMessage m]))"
  by (subst tool_loop.simps) auto

lemma tool_loop_round:
  "n < maxToolCalls \<Longrightarrow> chat_create env (tool_request messages) = Inr (Some m) \<Longrightarrow>
   tool_calls m = Some tcs \<Longrightarrow> tcs \<noteq> [] \<Longrightarrow>
   tool_loop env messages n =
     (tool_request messages
        # fst (tool_loop env ((messages @ [AssistantMessage m]) @ concat (map (run_tool_call env) tcs)) (n + 1)),
      snd (tool_loop env ((messages @ [AssistantMessage m]) @ concat (map (run_tool_call env) tcs)) (n + 1)))"
  by (subst tool_loop.simps) (simp add: Let_def split_beta)

lemma tool_loop_cases:
  obtains (stop) "\<not> n < maxToolCalls"
  | (failed) e where "n < maxToolCalls" "chat_create env (tool_request messages) = Inl e"
  | (no_choice) "n < maxToolCalls" "chat_create env (tool_request messages) = Inr None"
  | (final) m where "n < maxToolCalls" "chat_create env (tool_request messages) = Inr (Some m)"
        "tool_calls m = None \<or> tool_calls m = Some []"
  | (round) m tcs where "n < maxToolCalls" "chat_create env (tool_request messages) = Inr (Some m)"
        "tool_calls m = Some tcs" "tcs \<noteq> []"
proof (cases "n < maxToolCalls")
  case False then show ?thesis by (rule stop)
next
  case True
  show ?thesis
  proof (cases "chat_create env (tool_request messages)")
    case (Inl e) with True show ?thesis by (rule failed)
  next
    case (Inr r)
    show ?thesis
    proof (cases r)
      case None with True Inr show ?thesis by (auto intro: no_choice)
    next
      case (Some m)
      show ?thesis
      proof (cases "tool_calls m")
        case None with True Inr Some show ?thesis by (auto intro: final)
      next
        case (Some tcs)
        show ?thesis
        proof (cases "tcs = []")
          case True with \<open>n < maxToolCalls\<close> Inr \<open>r = Some m\<close> Some show ?thesis by (auto intro: final)
        next
          case False with \<open>n < maxToolCalls\<close> Inr \<open>r = Some m\<close> Some show ?thesis by (auto intro: round)
        qed
      qed
    qed
  qed
qed

lemma tool_loop_log:
  "length (fst (tool_loop env messages n)) \<le> maxToolCalls - n
   \<and> (\<forall>r \<in> set (fst (tool_loop env messages n)). with_tools r)"
proof (induction "maxToolCalls - n" arbitrary: n messages)
  case 0
  then have "\<not> n < maxToolCalls" by simp
  then show ?case by (simp add: tool_loop_done)
next
  case (Suc k)
  show ?case
  proof (cases rule: tool_loop_cases[where n=n and env=env and messages=messages])
    case stop then show ?thesis by (simp add: tool_loop_done)
  next
    case (failed e) then show ?thesis by (simp add: tool_loop_error tool_request_def)
  next
    case no_choice then show ?thesis by (simp add: tool_loop_no_choice tool_request_def)
  next
    case (final m) then show ?thesis by (simp add: tool_loop_final tool_request_def)
  next
    case (round m tcs)
    let ?next = "(messages @ [AssistantMessage m]) @ concat (map (run_tool_call env) tcs)"
    have "k = maxToolCalls - (n + 1)" using Suc.hyps(2) by simp
    from Suc.hyps(1)[OF this, of ?next]
    have IH: "length (fst (tool_loop env ?next (n + 1))) \<le> maxToolCalls - (n + 1)"
         "\<forall>r \<in> set (fst (tool_loop env ?next (n + 1))). with_tools r" by auto
    have "length (fst (tool_loop env messages n)) \<le> maxToolCalls - n"
      using IH(1) round(1) by (simp add: tool_loop_round[OF round])
    moreover have "\<forall>r \<in> set (fst (tool_loop env messages n)). with_tools r"
      using IH(2) by (simp add: tool_loop_round[OF round] tool_request_def)
    ultimately show ?thesis by simp
  qed
qed

lemma tool_loop_exhausted:
  assumes greedy: "\<forall>req. with_tools req \<longrightarrow>
             (\<exists>m tcs. chat_create env req = Inr (Some m) \<and> tool_calls m = Some tcs \<and> tcs \<noteq> [])"
  shows "length (fst (tool_loop env messages n)) = maxToolCalls - n
         \<and> (\<exists>conversation. snd (tool_loop env messages n) = Inr ([], conversation))"
proof (induction "maxToolCalls - n" arbitrary: n messages)
  case 0
  then have "\<not> n < maxToolCalls" by simp
  then show ?case by (simp add: tool_loop_done)
next
  case (Suc k)
  then have lt: "n < maxToolCalls" by simp
  have "with_tools (tool_request messages)" by (simp add: tool_request_def)
  with greedy obtain m tcs where
    r: "chat_create env (tool_request messages) = Inr (Some m)" "tool_calls m = Some tcs" "tcs \<noteq> []"
    by blast
  let ?next = "(messages @ [AssistantMessage m]) @ concat (map (run_tool_call env) tcs)"
  have "k = maxToolCalls - (n + 1)" using Suc.hyps(2) by simp
  from Suc.hyps(1)[OF this, of ?next] obtain conversation where
    IH: "length (fst (tool_loop env ?next (n + 1))) = maxToolCalls - (n + 1)"
        "snd (tool_loop env ?next (n + 1)) = Inr ([], conversation)" by auto
  have "length (fst (tool_loop env messages n)) = maxToolCalls - n"
    using IH(1) lt by (simp add: tool_loop_round[OF lt r])
  moreover have "snd (tool_loop env messages n) = Inr ([], conversation)"
    using IH(2) by (simp add: tool_loop_round[OF lt r])
  ultimately show ?case by simp
qed

text \<open>
  Claim C5. With the API key configured, if the model answers every request that offers
  tools with at least one tool call, \<open>answerIssue\<close> returns the failure ``Failed to get
  final response after tool calls'' (under the prefix every failure gets), after exactly
  three requests. And whatever the model answers, the loop sends at most three requests,
  all with tools; it is a total function, so it always returns.
\<close>

theorem tool_budget_exhausted:
  "(truthy (OPENAI_API_KEY env)
      \<and> (\<forall>req. with_tools req \<longrightarrow>
             (\<exists>m tcs. chat_create env req = Inr (Some m) \<and> tool_calls m = Some tcs \<and> tcs \<noteq> []))
     \<longrightarrow> answerIssue env issue os' device
           = Inl (Error ''Unable to process your request: Failed to get final response after tool calls'')
       \<and> length (fst (tool_loop env [SystemMessage (SYSTEM_PROMPT env),
                                      UserMessage (user_message issue os' device)] 0)) = 3)
   \<and> length (fst (tool_loop env messages 0)) \<le> 3
   \<and> (\<forall>r \<in> set (fst (tool_loop env messages 0)). with_tools r)"
proof (intro conjI impI)
  assume a: "truthy (OPENAI_API_KEY env)
      \<and> (\<forall>req. with_tools req \<longrightarrow>
             (\<exists>m tcs. chat_create env req = Inr (Some m) \<and> tool_calls m = Some tcs \<and> tcs \<noteq> []))"
  let ?msgs = "[SystemMessage (SYSTEM_PROMPT env), UserMessage (user_message issue os' device)]"
  from a tool_loop_exhausted[of env ?msgs 0] obtain conversation where
    l: "length (fst (tool_loop env ?msgs 0)) = maxToolCalls" and
    s: "snd (tool_loop env ?msgs 0) = Inr ([], conversation)" by auto
  show "length (fst (tool_loop env ?msgs 0)) = 3" using l by (simp add: maxToolCalls_def)
  have "answerIssue_try env issue os' device = Inl (Error ''Failed to get final response after tool calls'')"
    by (simp add: answerIssue_try_def Let_def s bindE_def)
  then show "answerIssue env issue os' device
           = Inl (Error ''Unable to process your request: Failed to get final response after tool calls'')"
    using a by (simp add: answerIssue_def message_of_def)
next
  show "length (fst (tool_loop env messages 0)) \<le> 3"
    using tool_loop_log[of env messages 0] by (simp add: maxToolCalls_def)
  show "\<forall>r \<in> set (fst (tool_loop env messages 0)). with_tools r"
    using tool_loop_log[of env messages 0] by simp
qed

theorem tool_budget_exhausted_witness:
  "answerIssue searching_env ''wifi keeps dropping'' (Some ''Windows'') (Some ''Laptop'')
     = Inl (Error ''Unable to process your request: Failed to get final response after tool calls'')
   \<and> length (fst (tool_loop searching_env
        [SystemMessage (SYSTEM_PROMPT searching_env),
         UserMessage (user_message ''wifi keeps dropping'' (Some ''Windows'') (Some ''Laptop''))] 0)) = 3"
proof -
  have k: "truthy (OPENAI_API_KEY searching_env)" by (simp add: searching_env_def truthy_def)
  have g: "\<forall>req. with_tools req \<longrightarrow>
             (\<exists>m tcs. chat_create searching_env req = Inr (Some m) \<and> tool_calls m = Some tcs \<and> tcs \<noteq> [])"
    by (simp add: searching_env_def)
  from tool_budget_exhausted[of searching_env "''wifi keeps dropping''" "Some ''Windows''" "Some ''Laptop''" "[]"] k g
  show ?thesis by blast
qed

subsection \<open>Validation returns what it is given back\<close>

lemma map_filter_Nil: "List.map_filter f xs = [] \<longleftrightarrow> (\<forall>x \<in> set xs. f x = None)"
  by (induction xs) (auto simp: List.map_filter_simps split: option.splits)

lemma z_string_Inr: "z_string cs p v = Inr s \<longleftrightarrow> v = JStr s \<and> (\<forall>c \<in> set cs. c s = None)"
  by (cases v) (auto simp: z_string_def map_filter_Nil[symmetric] split: list.splits)

lemma z_number_Inr: "z_number cs p v = Inr n \<longleftrightarrow> v = JNum n \<and> (\<forall>c \<in> set cs. c n = None)"
  by (cases v) (auto simp: z_number_def map_filter_Nil[symmetric] split: list.splits)

lemma z_both_Inr: "z_both r1 r2 = Inr ab \<longleftrightarrow> r1 = Inr (fst ab) \<and> r2 = Inr (snd ab)"
  by (cases r1; cases r2; cases ab) (auto simp: z_both_def)

lemma z_map_Inr: "z_map f r = Inr y \<longleftrightarrow> (\<exists>x. r = Inr x \<and> y = f x)"
  by (cases r) (auto simp: z_map_def)

lemma z_os_Inr: "z_os p v = Inr x \<longleftrightarrow> (\<exists>s. v = JStr s \<and> os_of_string s = Some x)"
  by (cases v) (auto simp: z_os_def split: option.splits)

lemma os_of_string_name: "os_of_string (os_name x) = Some x"
  by (cases x) (simp_all add: os_of_string_def os_name_def)

lemma z_items_Inr_Cons:
  "z_items item p i (x # xs) = Inr zs \<longleftrightarrow>
     (\<exists>y ys. zs = y # ys \<and> item (p @ [Idx i]) x = Inr y \<and> z_items item p (Suc i) xs = Inr ys)"
  by (auto simp: z_map_Inr z_both_Inr split_beta)

lemma z_items_roundtrip:
  assumes item: "\<And>p q v x. item p v = Inr x \<Longrightarrow> item q (V x) = Inr x"
  shows "z_items item p i xs = Inr ys \<Longrightarrow> z_items item q j (map V ys) = Inr ys"
proof (induction xs arbitrary: ys i j)
  case Nil then show ?case by simp
next
  case (Cons x xs)
  from Cons.prems obtain y ys' where ys: "ys = y # ys'" and y: "item (p @ [Idx i]) x = Inr y"
    and r: "z_items item p (Suc i) xs = Inr ys'" unfolding z_items_Inr_Cons by blast
  have "item (q @ [Idx j]) (V y) = Inr y" using y by (rule item)
  moreover have "z_items item q (Suc j) (map V ys') = Inr ys'" using r by (rule Cons.IH)
  ultimately show ?case by (simp add: ys z_map_def z_both_def)
qed

lemma z_items_length: "z_items item p i xs = Inr ys \<Longrightarrow> length ys = length xs"
proof (induction xs arbitrary: ys i)
  case Nil then show ?case by simp
next
  case (Cons x xs)
  from Cons.prems obtain y ys' where "ys = y # ys'" "z_items item p (Suc i) xs = Inr ys'"
    unfolding z_items_Inr_Cons by blast
  then show ?case using Cons.IH by simp
qed

lemma z_array_Inr:
  "z_array item lo hi p v = Inr ys \<longleftrightarrow>
     (\<exists>xs. v = JArr xs \<and> lo \<le> length xs \<and> (case hi of None \<Rightarrow> True | Some h \<Rightarrow> length xs \<le> h)
          \<and> z_items item p 0 xs = Inr ys)"
  by (cases v) (auto simp: z_array_def Let_def split: sum.splits option.splits if_splits)

lemma z_array_roundtrip:
  assumes item: "\<And>p q v x. item p v = Inr x \<Longrightarrow> item q (V x) = Inr x"
    and a: "z_array item lo hi p v = Inr ys"
  shows "z_array item lo hi q (JArr (map V ys)) = Inr ys"
proof -
  from a obtain xs where v: "v = JArr xs" and lo: "lo \<le> length xs"
    and hi: "(case hi of None \<Rightarrow> True | Some h \<Rightarrow> length xs \<le> h)"
    and it: "z_items item p 0 xs = Inr ys" by (auto simp: z_array_Inr)
  have l: "length ys = length xs" using it by (rule z_items_length)
  have "z_items item q 0 (map V ys) = Inr ys" using item it by (rule z_items_roundtrip)
  then show ?thesis using lo hi l by (auto simp: z_array_Inr split: option.splits)
qed

lemma z_string_roundtrip: "z_string cs p v = Inr s \<Longrightarrow> z_string cs q (JStr s) = Inr s"
  by (simp add: z_string_Inr)

lemma z_number_roundtrip: "z_number cs p v = Inr s \<Longrightarrow> z_number cs q (JNum s) = Inr s"
  by (simp add: z_number_Inr)

lemma z_os_roundtrip: "z_os p v = Inr x \<Longrightarrow> z_os q (JStr (os_name x)) = Inr x"
  by (simp add: z_os_Inr os_of_string_name)

lemma z_optional_Inr:
  "z_optional schema p v = Inr r \<longleftrightarrow> (v = JUndefined \<and> r = None) \<or> (v \<noteq> JUndefined \<and> (\<exists>x. r = Some x \<and> schema p v = Inr x))"
  by (cases v) (auto simp: z_optional_def z_map_Inr)

lemma z_default_Inr:
  "z_default d schema p v = Inr r \<longleftrightarrow> (v = JUndefined \<and> r = d) \<or> (v \<noteq> JUndefined \<and> schema p v = Inr r)"
  by (cases v) (auto simp: z_default_def)

lemma js_prop_JObj: "js_prop (JObj kvs) k = (case map_of kvs k of Some v \<Rightarrow> v | None \<Rightarrow> JUndefined)"
  by (simp add: js_prop_def)

lemma StepSchema_roundtrip:
  assumes "StepSchema p v = Inr s"
  shows "StepSchema q (step_value s) = Inr s"
proof -
  from assms obtain t d o' e sh where
    s: "s = \<lparr> step_title = t, detail = d, os = o', est_minutes = e, shell = sh \<rparr>"
    and t: "z_field (z_string [str_min 1]) p v ''title'' = Inr t"
    and d: "z_field (z_string [str_min 1]) p v ''detail'' = Inr d"
    and o': "z_field (z_array z_os 1 None) p v ''os'' = Inr o'"
    and e: "z_field (z_optional (z_number [num_positive])) p v ''est_minutes'' = Inr e"
    and sh: "z_field (z_optional (z_array (z_string []) 0 None)) p v ''shell'' = Inr sh"
    by (auto simp: StepSchema_def z_map_Inr z_both_Inr split: if_splits)
  have t': "z_field (z_string [str_min 1]) q (step_value s) ''title'' = Inr t"
    using t by (simp add: z_field_def step_value_def js_prop_JObj s z_string_Inr)
  have d': "z_field (z_string [str_min 1]) q (step_value s) ''detail'' = Inr d"
    using d by (simp add: z_field_def step_value_def js_prop_JObj s z_string_Inr)
  have o'': "z_field (z_array z_os 1 None) q (step_value s) ''os'' = Inr o'"
    using z_array_roundtrip[of z_os "\<lambda>x. JStr (os_name x)", OF z_os_roundtrip o'[unfolded z_field_def]]
    by (simp add: z_field_def step_value_def js_prop_JObj s)
  have e': "z_field (z_optional (z_number [num_positive])) q (step_value s) ''est_minutes'' = Inr e"
  proof (cases e)
    case None then show ?thesis
      by (simp add: z_field_def step_value_def js_prop_JObj s opt_field_def z_optional_def split: option.splits)
  next
    case (Some n)
    then have "z_number [num_positive] (p @ [Key ''est_minutes'']) (js_prop v ''est_minutes'') = Inr n"
      using e by (auto simp: z_field_def z_optional_Inr)
    then have "z_number [num_positive] (q @ [Key ''est_minutes'']) (JNum n) = Inr n" by (rule z_number_roundtrip)
    then show ?thesis using Some
      by (simp add: z_field_def step_value_def js_prop_JObj s opt_field_def z_optional_def z_map_def)
  qed
  have sh': "z_field (z_optional (z_array (z_string []) 0 None)) q (step_value s) ''shell'' = Inr sh"
  proof (cases sh)
    case None then show ?thesis
      by (simp add: z_field_def step_value_def js_prop_JObj s opt_field_def z_optional_def split: option.splits)
  next
    case (Some xs)
    then have "z_array (z_string []) 0 None (p @ [Key ''shell'']) (js_prop v ''shell'') = Inr xs"
      using sh by (auto simp: z_field_def z_optional_Inr)
    from z_array_roundtrip[of "z_string []" JStr, OF z_string_roundtrip this]
    have "z_array (z_string []) 0 None (q @ [Key ''shell'']) (JArr (map JStr xs)) = Inr xs" .
    then show ?thesis using Some
      by (simp add: z_field_def step_value_def js_prop_JObj s opt_field_def z_optional_def z_map_def split: option.splits)
  qed
  have obj: "is_object (step_value s)" by (simp add: step_value_def is_object_def)
  show ?thesis
    unfolding StepSchema_def t' d' o'' e' sh' using obj by (simp add: z_both_def z_map_def s)
qed


lemma DecisionTreeSchema_roundtrip:
  assumes "DecisionTreeSchema p v = Inr s"
  shows "DecisionTreeSchema q (decision_value s) = Inr s"
proof -
  from assms obtain i t l where
    s: "s = \<lparr> dt_if = i, dt_then = t, link_step = l \<rparr>"
    and i: "z_field (z_string [str_min 1]) p v ''if'' = Inr i"
    and t: "z_field (z_string [str_min 1]) p v ''then'' = Inr t"
    and l: "z_field (z_optional (z_number [num_int, num_positive])) p v ''link_step'' = Inr l"
    by (auto simp: DecisionTreeSchema_def z_map_Inr z_both_Inr split: if_splits)
  have i': "z_field (z_string [str_min 1]) q (decision_value s) ''if'' = Inr i"
    using i by (simp add: z_field_def decision_value_def js_prop_JObj s z_string_Inr)
  have t': "z_field (z_string [str_min 1]) q (decision_value s) ''then'' = Inr t"
    using t by (simp add: z_field_def decision_value_def js_prop_JObj s z_string_Inr)
  have l': "z_field (z_optional (z_number [num_int, num_positive])) q (decision_value s) ''link_step'' = Inr l"
  proof (cases l)
    case None then show ?thesis
      by (simp add: z_field_def decision_value_def js_prop_JObj s opt_field_def z_optional_def)
  next
    case (Some n)
    then have "z_number [num_int, num_positive] (p @ [Key ''link_step'']) (js_prop v ''link_step'') = Inr n"
      using l by (auto simp: z_field_def z_optional_Inr)
    then have "z_number [num_int, num_positive] (q @ [Key ''link_step'']) (JNum n) = Inr n" by (rule z_number_roundtrip)
    then show ?thesis using Some
      by (simp add: z_field_def decision_value_def js_prop_JObj s opt_field_def z_optional_def z_map_def)
  qed
  have obj: "is_object (decision_value s)" by (simp add: decision_value_def is_object_def)
  show ?thesis
    unfolding DecisionTreeSchema_def i' t' l' using obj by (simp add: z_both_def z_map_def s)
qed

lemma DiagramSchema_roundtrip:
  assumes "DiagramSchema p v = Inr s"
  shows "DiagramSchema q (diagram_value s) = Inr s"
proof -
  let ?svg = "z_string [str_min 1, str_refine (\<lambda>svg. startsWith (js_trim svg) ''<svg'')]"
  from assms obtain c g where
    s: "s = \<lparr> caption = c, svg = g \<rparr>"
    and c: "z_field (z_string [str_min 1]) p v ''caption'' = Inr c"
    and g: "z_field ?svg p v ''svg'' = Inr g"
    by (auto simp: DiagramSchema_def z_map_Inr z_both_Inr split: if_splits)
  have c': "z_field (z_string [str_min 1]) q (diagram_value s) ''caption'' = Inr c"
    using c by (simp add: z_field_def diagram_value_def js_prop_JObj s z_string_Inr)
  have g': "z_field ?svg q (diagram_value s) ''svg'' = Inr g"
    using g by (simp add: z_field_def diagram_value_def js_prop_JObj s z_string_Inr)
  have obj: "is_object (diagram_value s)" by (simp add: diagram_value_def is_object_def)
  show ?thesis
    unfolding DiagramSchema_def c' g' using obj by (simp add: z_both_def z_map_def s)
qed

lemma CitationSchema_roundtrip:
  assumes "CitationSchema U p v = Inr s"
  shows "CitationSchema U q (citation_value s) = Inr s"
proof -
  from assms obtain u t qu where
    s: "s = \<lparr> url = u, citation_title = t, quote = qu \<rparr>"
    and u: "z_field (z_string [str_url U]) p v ''url'' = Inr u"
    and t: "z_field (z_string [str_min 1]) p v ''title'' = Inr t"
    and qu: "z_field (z_string [str_max 180]) p v ''quote'' = Inr qu"
    by (auto simp: CitationSchema_def z_map_Inr z_both_Inr split: if_splits)
  have u': "z_field (z_string [str_url U]) q (citation_value s) ''url'' = Inr u"
    using u by (simp add: z_field_def citation_value_def js_prop_JObj s z_string_Inr)
  have t': "z_field (z_string [str_min 1]) q (citation_value s) ''title'' = Inr t"
    using t by (simp add: z_field_def citation_value_def js_prop_JObj s z_string_Inr)
  have qu': "z_field (z_string [str_max 180]) q (citation_value s) ''quote'' = Inr qu"
    using qu by (simp add: z_field_def citation_value_def js_prop_JObj s z_string_Inr)
  have obj: "is_object (citation_value s)" by (simp add: citation_value_def is_object_def)
  show ?thesis
    unfolding CitationSchema_def u' t' qu' using obj by (simp add: z_both_def z_map_def s)
qed

lemma z_default_array_roundtrip:
  assumes item: "\<And>p q v x. item p v = Inr x \<Longrightarrow> item q (V x) = Inr x"
    and a: "z_default [] (z_array item 0 None) p v = Inr ys"
  shows "z_default [] (z_array item 0 None) q (JArr (map V ys)) = Inr ys"
proof (cases "v = JUndefined")
  case True
  then have "ys = []" using a by (simp add: z_default_def)
  then show ?thesis by (simp add: z_default_def z_array_def)
next
  case False
  then have "z_array item 0 None p v = Inr ys" using a by (simp add: z_default_Inr)
  from z_array_roundtrip[of item V, OF item this] show ?thesis by (simp add: z_default_def)
qed

lemma AnswerSchema_roundtrip:
  assumes "AnswerSchema U p v = Inr a"
  shows "AnswerSchema U q (answer_value a) = Inr a"
proof -
  from assms obtain t s pr st dt dg ci w where
    a: "a = \<lparr> answer_title = t, one_paragraph_summary = s, prereqs = pr, steps = st,
                      decision_tree = dt, diagrams = dg, citations = ci, warnings = w \<rparr>"
    and t: "z_field (z_string [str_min 1]) p v ''answer_title'' = Inr t"
    and s: "z_field (z_string [str_min 1]) p v ''one_paragraph_summary'' = Inr s"
    and pr: "z_field (z_default [] (z_array (z_string []) 0 None)) p v ''prereqs'' = Inr pr"
    and st: "z_field (z_array StepSchema 1 None) p v ''steps'' = Inr st"
    and dt: "z_field (z_default [] (z_array DecisionTreeSchema 0 None)) p v ''decision_tree'' = Inr dt"
    and dg: "z_field (z_default [] (z_array DiagramSchema 0 None)) p v ''diagrams'' = Inr dg"
    and ci: "z_field (z_array (CitationSchema U) 2 (Some 5)) p v ''citations'' = Inr ci"
    and w: "z_field (z_default [] (z_array (z_string []) 0 None)) p v ''warnings'' = Inr w"
    by (auto simp: AnswerSchema_def z_map_Inr z_both_Inr split: if_splits)
  have t': "z_field (z_string [str_min 1]) q (answer_value a) ''answer_title'' = Inr t"
    using t by (simp add: z_field_def answer_value_def js_prop_JObj a z_string_Inr)
  have s': "z_field (z_string [str_min 1]) q (answer_value a) ''one_paragraph_summary'' = Inr s"
    using s by (simp add: z_field_def answer_value_def js_prop_JObj a z_string_Inr)
  have pr': "z_field (z_default [] (z_array (z_string []) 0 None)) q (answer_value a) ''prereqs'' = Inr pr"
    using z_default_array_roundtrip[of "z_string []" JStr, OF z_string_roundtrip pr[unfolded z_field_def]]
    by (simp add: z_field_def answer_value_def js_prop_JObj a)
  have st': "z_field (z_array StepSchema 1 None) q (answer_value a) ''steps'' = Inr st"
    using z_array_roundtrip[of StepSchema step_value, OF StepSchema_roundtrip st[unfolded z_field_def]]
    by (simp add: z_field_def answer_value_def js_prop_JObj a)
  have dt': "z_field (z_default [] (z_array DecisionTreeSchema 0 None)) q (answer_value a) ''decision_tree'' = Inr dt"
    using z_default_array_roundtrip[of DecisionTreeSchema decision_value, OF DecisionTreeSchema_roundtrip dt[unfolded z_field_def]]
    by (simp add: z_field_def answer_value_def js_prop_JObj a)
  have dg': "z_field (z_default [] (z_array DiagramSchema 0 None)) q (answer_value a) ''diagrams'' = Inr dg"
    using z_default_array_roundtrip[of DiagramSchema diagram_value, OF DiagramSchema_roundtrip dg[unfolded z_field_def]]
    by (simp add: z_field_def answer_value_def js_prop_JObj a)
  have ci': "z_field (z_array (CitationSchema U) 2 (Some 5)) q (answer_value a) ''citations'' = Inr ci"
    using z_array_roundtrip[of "CitationSchema U" citation_value, OF CitationSchema_roundtrip ci[unfolded z_field_def]]
    by (simp add: z_field_def answer_value_def js_prop_JObj a)
  have w': "z_field (z_default [] (z_array (z_string []) 0 None)) q (answer_value a) ''warnings'' = Inr w"
    using z_default_array_roundtrip[of "z_string []" JStr, OF z_string_roundtrip w[unfolded z_field_def]]
    by (simp add: z_field_def answer_value_def js_prop_JObj a)
  have obj: "is_object (answer_value a)" by (simp add: answer_value_def is_object_def)
  show ?thesis
    unfolding AnswerSchema_def t' s' pr' st' dt' dg' ci' w' using obj by (simp add: z_both_def z_map_def a)
qed

lemma validateAnswer_roundtrip:
  "safeParseAnswer U v = Inr a \<Longrightarrow> validateAnswer U (answer_value a) = Inr a"
  by (simp add: safeParseAnswer_def validateAnswer_def AnswerSchema_roundtrip)

subsection \<open>The citation-diversity round\<close>

lemma after_first_None: "hd pat \<notin> set s \<Longrightarrow> pat \<noteq> [] \<Longrightarrow> after_first pat s = None"
proof (induction s)
  case Nil then show ?case by simp
next
  case (Cons c cs)
  then have "\<not> startsWith (c # cs) pat" by (cases pat) (auto simp: startsWith_def)
  then show ?case using Cons by simp
qed

lemma match_fence_None: "CHR ''`'' \<notin> set s \<Longrightarrow> match_fence s = None"
  by (simp add: match_fence_def after_first_None fence_def)

lemma match_between_whole:
  "c \<noteq> o' \<Longrightarrow> match_between o' c (o' # mid @ [c]) = Some (o' # mid @ [c])"
  by (simp add: match_between_def)

lemma replace_newlines_id: "newline \<notin> set s \<Longrightarrow> replace_newlines s = s"
  by (induction s) auto

lemma clean_jsonStr_id: "\<forall>c \<in> set s. \<not> js_space c \<Longrightarrow> clean_jsonStr s = s"
proof -
  assume a: "\<forall>c \<in> set s. \<not> js_space c"
  have "js_space newline" by (simp add: js_space_def newline_def)
  then have "newline \<notin> set s" using a by blast
  then show ?thesis using a
    by (simp add: clean_jsonStr_def js_trim_id replace_newlines_id replace_runs_id)
qed

lemma text_shape: "\<exists>mid. same_domain_text = CHR ''{'' # mid @ ''}''"
  unfolding same_domain_text_def
  by (rule exI[of _ "butlast (tl same_domain_text)"]) (simp add: same_domain_text_def)

lemma citation_round_no_array:
  assumes "\<not> distinctDomainsOK (new_URL env) (citations a)"
    and "chat_create env (addendum_request env a) = Inr reply"
    and "addendum_array env reply = None"
  shows "citation_round env a = Inr (answer_value a)"
  using assms
  by (auto simp: citation_round_def addendum_array_def split: option.splits jsval.splits if_splits)

lemma citation_round_request_fails:
  assumes "\<not> distinctDomainsOK (new_URL env) (citations a)"
    and "chat_create env (addendum_request env a) = Inl e"
  shows "citation_round env a = Inl e"
  using assms by (simp add: citation_round_def)

text \<open>
  Claim C1, as the code has it by design. Let the answer be one that validation returned
  and whose citations fail the distinct-domain check. If the reply to the citation
  request yields no array (no message, no content, empty content, no bracket-delimited
  part, a part that does not parse, or a parsed value that is no array), the round ends
  with the original answer, which the final validation returns unchanged. If the request
  itself fails, its error leaves the round, as the error of any request to the model
  does, and the call fails with it.
\<close>

theorem citation_round_best_effort:
  "safeParseAnswer (new_URL env) v = Inr a \<and> \<not> distinctDomainsOK (new_URL env) (citations a) \<Longrightarrow>
     (\<forall>reply. chat_create env (addendum_request env a) = Inr reply \<and> addendum_array env reply = None
         \<longrightarrow> finish env a = Inr a)
   \<and> (\<forall>e. chat_create env (addendum_request env a) = Inl e \<longrightarrow> finish env a = Inl e)"
proof (intro conjI allI impI)
  assume h: "safeParseAnswer (new_URL env) v = Inr a \<and> \<not> distinctDomainsOK (new_URL env) (citations a)"
  {
    fix reply
    assume "chat_create env (addendum_request env a) = Inr reply \<and> addendum_array env reply = None"
    then have "citation_round env a = Inr (answer_value a)"
      using h by (intro citation_round_no_array) auto
    then show "finish env a = Inr a"
      using h validateAnswer_roundtrip[of "new_URL env" v a] by (simp add: finish_def)
  }
  fix e
  assume "chat_create env (addendum_request env a) = Inl e"
  then have "citation_round env a = Inl e" using h by (intro citation_round_request_fails) auto
  then show "finish env a = Inl e" by (simp add: finish_def)
qed

lemma same_domain_valid:
  "safeParseAnswer example_hosts (answer_value same_domain_answer) = Inr same_domain_answer"
  by (simp add: safeParseAnswer_def AnswerSchema_def StepSchema_def CitationSchema_def
      answer_value_def step_value_def citation_value_def same_domain_answer_def opt_field_def
      z_field_def z_both_def z_map_def z_string_def z_array_def z_default_def z_optional_def z_os_def
      js_prop_def is_object_def str_min_def str_max_def str_url_def example_hosts_def
      os_name_def os_of_string_def List.map_filter_simps Let_def)

lemma same_domain_not_distinct:
  "\<not> distinctDomainsOK example_hosts (citations same_domain_answer)"
  by (simp add: same_domain_answer_def distinctDomainsOK_def add_domain_def Let_def toLowerCase_def
      slice_last_def Set_add_def Set_size_def example_hosts_def)

lemma same_domain_text_chars:
  "CHR ''`'' \<notin> set same_domain_text" "\<forall>c \<in> set same_domain_text. \<not> js_space c" "same_domain_text \<noteq> []"
  by (simp_all add: same_domain_text_def js_space_def)

lemma extract_same_domain_text: "extract_jsonStr same_domain_text = same_domain_text"
proof -
  obtain mid where m: "same_domain_text = CHR ''{'' # mid @ ''}''" using text_shape by blast
  have "match_between CHR ''{'' CHR ''}'' same_domain_text = Some same_domain_text"
    unfolding m by (rule match_between_whole) simp
  then show ?thesis by (simp add: extract_jsonStr_def match_fence_None same_domain_text_chars)
qed

lemma repair_env_simps:
  "OPENAI_API_KEY (repair_env R) = Some ''sk-test''"
  "new_URL (repair_env R) = example_hosts"
  "with_tools req \<Longrightarrow> chat_create (repair_env R) req = Inr (Some \<lparr> content = Some same_domain_text, tool_calls = None \<rparr>)"
  "\<not> with_tools req \<Longrightarrow> chat_create (repair_env R) req = R"
  "JSON_parse (repair_env R) same_domain_text = Some (answer_value same_domain_answer)"
  "error_message (repair_env R) e = ''Validation failed''"
  by (simp_all add: repair_env_def)

lemma parse_same_domain_text:
  "parse_response (repair_env R) same_domain_text = Inr (answer_value same_domain_answer)"
  by (simp add: parse_response_def Let_def extract_same_domain_text same_domain_text_chars
      clean_jsonStr_id repair_env_simps)

lemma clamp_same_domain:
  "clampAnswer (answer_value same_domain_answer)
     = Inr (JObj [(''answer_title'', JStr ''Router''),
           (''one_paragraph_summary'', JStr ''Power-cycle.''),
           (''prereqs'', JArr []),
           (''steps'', JArr [JObj [(''title'', JStr ''Unplug''), (''detail'', JStr ''Wait.''),
                                   (''os'', JArr [JStr ''Windows'']), (''shell'', JUndefined)]]),
           (''decision_tree'', JArr []),
           (''diagrams'', JArr []),
           (''citations'', JArr (map citation_value (citations same_domain_answer))),
           (''warnings'', JArr [])])"
  by (simp add: clampAnswer_def clampStep_def clampCitation_def answer_value_def step_value_def
      citation_value_def same_domain_answer_def opt_field_def js_get_def js_prop_def js_substring_def
      js_map_def js_opt_map_def js_spread_def with_prop_def os_name_def)

lemma clamp_and_validate_same_domain:
  "clamp_and_validate (repair_env R) (answer_value same_domain_answer) = Inr same_domain_answer"
  unfolding clamp_and_validate_def clamp_same_domain
  by (simp add: repair_env_simps safeParseAnswer_def AnswerSchema_def StepSchema_def CitationSchema_def
      citation_value_def same_domain_answer_def
      z_field_def z_both_def z_map_def z_string_def z_array_def z_default_def z_optional_def z_os_def
      js_prop_def is_object_def str_min_def str_max_def str_url_def example_hosts_def
      os_of_string_def List.map_filter_simps Let_def)

lemma answerIssue_try_same_domain:
  "answerIssue_try (repair_env R) issue os' device = finish (repair_env R) same_domain_answer"
proof -
  let ?msgs = "[SystemMessage (SYSTEM_PROMPT (repair_env R)), UserMessage (user_message issue os' device)]"
  have "tool_loop (repair_env R) ?msgs 0
     = ([tool_request ?msgs], Inr (same_domain_text, ?msgs @ [AssistantMessage \<lparr> content = Some same_domain_text, tool_calls = None \<rparr>]))"
    by (subst tool_loop_final[where m="\<lparr> content = Some same_domain_text, tool_calls = None \<rparr>"])
       (simp_all add: maxToolCalls_def repair_env_simps tool_request_def)
  then show ?thesis
    by (simp add: answerIssue_try_def Let_def same_domain_text_chars parse_same_domain_text
        clamp_and_validate_same_domain)
qed

lemma finish_bad_addendum:
  "finish (repair_env (Inr (Some \<lparr> content = Some bad_addendum_text, tool_calls = None \<rparr>))) same_domain_answer
     = Inl (ZodError [Issue invalid_string [Key ''citations'', Idx 2, Key ''url'']])"
proof -
  let ?env = "repair_env (Inr (Some \<lparr> content = Some bad_addendum_text, tool_calls = None \<rparr>))"
  have m: "match_between CHR ''['' CHR '']'' bad_addendum_text = Some bad_addendum_text"
    by (simp add: match_between_def bad_addendum_text_def)
  have p: "JSON_parse ?env bad_addendum_text = Some bad_addendum_value"
    by (simp add: repair_env_def bad_addendum_text_def same_domain_text_def)
  have ne: "bad_addendum_text \<noteq> []" by (simp add: bad_addendum_text_def)
  have r: "chat_create ?env (addendum_request ?env same_domain_answer)
            = Inr (Some \<lparr> content = Some bad_addendum_text, tool_calls = None \<rparr>)"
    by (simp add: repair_env_simps addendum_request_def)
  let ?assigned = "assign_citations same_domain_answer
       (map citation_value (take 2 (citations same_domain_answer))
             @ [JObj [(''url'', JStr ''not-a-url''), (''title'', JStr ''Other''), (''quote'', JStr ''See.'')]])"
  have s: "AnswerSchema example_hosts [] ?assigned
            = Inl [Issue invalid_string [Key ''citations'', Idx 2, Key ''url'']]"
    by (simp add: assign_citations_def AnswerSchema_def StepSchema_def CitationSchema_def
      answer_value_def step_value_def citation_value_def same_domain_answer_def opt_field_def
      z_field_def z_both_def z_map_def z_string_def z_array_def z_default_def z_optional_def z_os_def
      js_prop_def js_spread_def with_prop_def is_object_def str_min_def str_max_def str_url_def example_hosts_def
      os_name_def os_of_string_def List.map_filter_simps Let_def issues_of_def)
  have "citation_round ?env same_domain_answer = Inr ?assigned"
    unfolding citation_round_def
    by (simp add: repair_env_simps same_domain_not_distinct r m p ne bad_addendum_value_def Let_def
        safeParseAnswer_def s)
  then show ?thesis by (simp add: finish_def validateAnswer_def repair_env_simps s)
qed

text \<open>
  Claim C1 as stated says the round never makes the call fail. Two runs in which the
  model's first reply is a valid answer with two citations of one domain: in the first
  the citation request fails, in the second its reply is an array holding a citation
  with \<^verbatim>\<open>"url":"not-a-url"\<close>, so the re-validation fails after the new list has been
  assigned. Both calls fail.
\<close>

theorem repair_round_fails_call:
  "clamp_and_validate (repair_env (Inl (Error ''Connection error.''))) (answer_value same_domain_answer)
      = Inr same_domain_answer
   \<and> \<not> distinctDomainsOK example_hosts (citations same_domain_answer)
   \<and> answerIssue (repair_env (Inl (Error ''Connection error.''))) ''wifi'' (Some ''Windows'') (Some ''Laptop'')
      = Inl (Error ''Unable to process your request: Connection error.'')
   \<and> answerIssue (repair_env (Inr (Some \<lparr> content = Some bad_addendum_text, tool_calls = None \<rparr>)))
        ''wifi'' (Some ''Windows'') (Some ''Laptop'')
      = Inl (Error ''Unable to process your request: Validation failed'')"
proof -
  let ?e1 = "repair_env (Inl (Error ''Connection error.''))"
  have "citation_round ?e1 same_domain_answer = Inl (Error ''Connection error.'')"
    by (intro citation_round_request_fails)
       (simp_all add: repair_env_simps same_domain_not_distinct addendum_request_def)
  then have f1: "finish ?e1 same_domain_answer = Inl (Error ''Connection error.'')"
    by (simp add: finish_def)
  show ?thesis
    by (simp add: answerIssue_def answerIssue_try_same_domain f1 finish_bad_addendum
        clamp_and_validate_same_domain same_domain_not_distinct repair_env_simps truthy_def message_of_def)
qed

theorem citation_round_best_effort_witness:
  "finish (repair_env (Inr (Some \<lparr> content = Some no_array_text, tool_calls = None \<rparr>))) same_domain_answer
     = Inr same_domain_answer
   \<and> finish (repair_env (Inl (Error ''Connection error.''))) same_domain_answer
     = Inl (Error ''Connection error.'')"
proof -
  let ?reply = "Some \<lparr> content = Some no_array_text, tool_calls = None \<rparr>"
  let ?e0 = "repair_env (Inr ?reply)"
  let ?e1 = "repair_env (Inl (Error ''Connection error.''))"
  have h0: "safeParseAnswer (new_URL ?e0) (answer_value same_domain_answer) = Inr same_domain_answer
           \<and> \<not> distinctDomainsOK (new_URL ?e0) (citations same_domain_answer)"
    by (simp add: repair_env_simps same_domain_valid same_domain_not_distinct)
  have h1: "safeParseAnswer (new_URL ?e1) (answer_value same_domain_answer) = Inr same_domain_answer
           \<and> \<not> distinctDomainsOK (new_URL ?e1) (citations same_domain_answer)"
    by (simp add: repair_env_simps same_domain_valid same_domain_not_distinct)
  have r0: "chat_create ?e0 (addendum_request ?e0 same_domain_answer) = Inr ?reply"
    by (simp add: repair_env_simps addendum_request_def)
  have a0: "addendum_array ?e0 ?reply = None"
    by (simp add: addendum_array_def match_between_def no_array_text_def)
  have r1: "chat_create ?e1 (addendum_request ?e1 same_domain_answer) = Inl (Error ''Connection error.'')"
    by (simp add: repair_env_simps addendum_request_def)
  from citation_round_best_effort[OF h0] citation_round_best_effort[OF h1] r0 a0 r1
  show ?thesis by blast
qed

subsection \<open>Clamping before validation\<close>

lemma issues_of_simps [simp]: "issues_of (Inl is) = is" "issues_of (Inr x) = []"
  by (simp_all add: issues_of_def)























































lemma same_but_objects: "same_but ks x y \<Longrightarrow> is_object x \<and> is_object y"
  by (simp add: same_but_def)






















text \<open>
  \<^verbatim>\<open>clampAnswer\<close> is declared on \<^verbatim>\<open>Answer\<close>, and the orchestrator passes it what
  \<^verbatim>\<open>JSON.parse\<close> returned. On a reply outside the type, clamping can throw where
  validation alone would have accepted: a reply without \<^verbatim>\<open>prereqs\<close>, which the schema
  fills in with the empty list, makes \<^verbatim>\<open>a.prereqs.map\<close> throw a TypeError.
\<close>

lemma clamp_outside_type:
  "\<not> is_Answer no_prereqs_reply
   \<and> (case safeParseAnswer example_hosts no_prereqs_reply of Inr data \<Rightarrow> prereqs data = [] | Inl issues \<Rightarrow> False)
   \<and> clampAnswer no_prereqs_reply = Inl TypeError
   \<and> clamp_and_validate (repair_env (Inr None)) no_prereqs_reply = Inl TypeError"
proof -
  have t: "\<not> is_Answer no_prereqs_reply"
    by (simp add: no_prereqs_reply_def is_Answer_def is_array_of_def js_prop_def)
  have v: "case safeParseAnswer example_hosts no_prereqs_reply of Inr data \<Rightarrow> prereqs data = [] | Inl issues \<Rightarrow> False"
    by (simp add: safeParseAnswer_def AnswerSchema_def StepSchema_def CitationSchema_def
      no_prereqs_reply_def
      z_field_def z_both_def z_map_def z_string_def z_array_def z_default_def z_optional_def z_os_def
      js_prop_def is_object_def str_min_def str_max_def str_url_def example_hosts_def
      os_of_string_def List.map_filter_simps Let_def)
  have c: "clampAnswer no_prereqs_reply = Inl TypeError"
    by (simp add: clampAnswer_def no_prereqs_reply_def js_get_def js_prop_def js_substring_def js_map_def)
  show ?thesis using t v c by (simp add: clamp_and_validate_def)
qed

section \<open>Properties of the request handler\<close>

lemma retry_after_bounds:
  "1 \<le> \<lceil>(of_int (10 * 60 * 1000 - t mod (10 * 60 * 1000)) :: rat) / 1000\<rceil>
   \<and> \<lceil>(of_int (10 * 60 * 1000 - t mod (10 * 60 * 1000)) :: rat) / 1000\<rceil> \<le> 600"
proof -
  define m where "m = 10 * 60 * 1000 - t mod (10 * 60 * 1000)"
  have "0 \<le> t mod (10 * 60 * 1000)" "t mod (10 * 60 * 1000) < 10 * 60 * 1000" by simp_all
  then have m: "0 < m" "m \<le> 600000" by (simp_all add: m_def)
  have "(0::rat) < of_int m / 1000" using m(1) by simp
  then have 1: "1 \<le> \<lceil>(of_int m :: rat) / 1000\<rceil>" by (simp add: ceiling_le_iff less_ceiling_iff)
  have "(of_int m :: rat) \<le> 600000" using m(2) by (metis of_int_le_iff of_int_numeral)
  then have "(of_int m :: rat) / 1000 \<le> 600" by simp
  then have 2: "\<lceil>(of_int m :: rat) / 1000\<rceil> \<le> 600" by (simp add: ceiling_le_iff)
  show ?thesis using 1 2 unfolding m_def by simp
qed

lemma POST_denied:
  assumes "\<not> fst (consume (limiter st) (now_consume clk) (client_ip request))"
  shows "POST env clk st request =
     (rate_limit_response clk
        (getRemainingTokens (snd (consume (limiter st) (now_consume clk) (client_ip request)))
           (now_remaining clk) (client_ip request)),
      st \<lparr> limiter := snd (consume (limiter st) (now_consume clk) (client_ip request)) \<rparr>,
      [])"
  using assms by (simp add: POST_def Let_def split_beta)

text \<open>
  Claim C8. When the limiter denies the identity of a request, the handler returns status
  429 with a body that holds the error text and a \<^verbatim>\<open>retryAfter\<close> between 1 and 600
  seconds; the trace is empty, so the body was not read, the cache not looked up and the
  orchestrator not called; the cache is unchanged and the limiter holds the bucket the
  denial stored. The outcome is the same whatever the payload and the orchestrator's
  collaborators are.
\<close>

theorem denied_request_stops_at_limiter:
  "\<not> fst (consume (limiter st) (now_consume clk) (client_ip request)) \<Longrightarrow>
   (\<exists>response st'.
       POST env clk st request = (response, st', [])
     \<and> status_code response = 429
     \<and> js_prop (response_body response) ''error'' = JStr ''Rate limit exceeded. Please try again later.''
     \<and> (\<exists>n. js_prop (response_body response) ''retryAfter'' = JNum (of_int n) \<and> 1 \<le> n \<and> n \<le> 600)
     \<and> answers st' = answers st
     \<and> limiter st' = snd (consume (limiter st) (now_consume clk) (client_ip request)))
   \<and> (\<forall>env' payload. POST env' clk st (request \<lparr> json_body := payload \<rparr>) = POST env clk st request)"
proof (intro conjI allI)
  assume d: "\<not> fst (consume (limiter st) (now_consume clk) (client_ip request))"
  let ?lim = "snd (consume (limiter st) (now_consume clk) (client_ip request))"
  let ?resp = "rate_limit_response clk (getRemainingTokens ?lim (now_remaining clk) (client_ip request))"
  have p: "POST env clk st request = (?resp, st \<lparr> limiter := ?lim \<rparr>, [])"
    using d by (rule POST_denied)
  have r: "\<exists>n. js_prop (response_body ?resp) ''retryAfter'' = JNum (of_int n) \<and> 1 \<le> n \<and> n \<le> 600"
    using retry_after_bounds[of "now_retry clk"]
    by (intro exI[of _ "\<lceil>(of_int (10 * 60 * 1000 - now_retry clk mod (10 * 60 * 1000)) :: rat) / 1000\<rceil>"])
       (simp add: rate_limit_response_def js_prop_def)
  show "\<exists>response st'.
       POST env clk st request = (response, st', [])
     \<and> status_code response = 429
     \<and> js_prop (response_body response) ''error'' = JStr ''Rate limit exceeded. Please try again later.''
     \<and> (\<exists>n. js_prop (response_body response) ''retryAfter'' = JNum (of_int n) \<and> 1 \<le> n \<and> n \<le> 600)
     \<and> answers st' = answers st
     \<and> limiter st' = snd (consume (limiter st) (now_consume clk) (client_ip request))"
    apply (rule exI[of _ ?resp], rule exI[of _ "st \<lparr> limiter := ?lim \<rparr>"])
    using p r by (simp add: rate_limit_response_def js_prop_def)
  fix env' payload
  have c: "client_ip (request \<lparr> json_body := payload \<rparr>) = client_ip request"
    by (simp add: client_ip_def Let_def)
  have "\<not> fst (consume (limiter st) (now_consume clk) (client_ip (request \<lparr> json_body := payload \<rparr>)))"
    using d by (simp add: c)
  from POST_denied[OF this, of env'] show "POST env' clk st (request \<lparr> json_body := payload \<rparr>) = POST env clk st request"
    by (simp add: p c)
qed

theorem denied_request_stops_at_limiter_witness:
  "POST searching_env soon_after exhausted_state wifi_request
     = (\<lparr> status_code = 429,
          response_body = JObj [(''error'', JStr ''Rate limit exceeded. Please try again later.''),
                                (''retryAfter'', JNum 569)],
          response_headers = [(''X-RateLimit-Remaining'', HeaderNumber (30001 / 60000)),
                              (''X-RateLimit-Reset'', HeaderInstant 631003)] \<rparr>,
        exhausted_state \<lparr> limiter := rateLimiter \<lparr> buckets := [''10.0.0.7'' \<mapsto> \<lparr> tokens = 1 / 2, lastRefill = 31000 \<rparr>] \<rparr> \<rparr>,
        [])"
proof -
  have ip: "client_ip wifi_request = ''10.0.0.7''"
    by (simp add: client_ip_def wifi_request_def truthy_def)
  have c: "consume (limiter exhausted_state) (now_consume soon_after) (client_ip wifi_request)
         = (False, rateLimiter \<lparr> buckets := [''10.0.0.7'' \<mapsto> \<lparr> tokens = 1 / 2, lastRefill = 31000 \<rparr>] \<rparr>)"
    unfolding ip
    by (simp add: exhausted_state_def soon_after_def consume_def rateLimiter_def new_TokenBucketRateLimiter_def Let_def)
  then have d: "\<not> fst (consume (limiter exhausted_state) (now_consume soon_after) (client_ip wifi_request))"
    by simp
  have ce: "\<lceil>(284499::rat) / 500\<rceil> = 569" by (rule ceiling_unique) simp_all
  from denied_request_stops_at_limiter[OF d, of searching_env] obtain response st' where
    p: "POST searching_env soon_after exhausted_state wifi_request = (response, st', [])"
    by blast
  have "POST searching_env soon_after exhausted_state wifi_request
     = (\<lparr> status_code = 429,
          response_body = JObj [(''error'', JStr ''Rate limit exceeded. Please try again later.''),
                                (''retryAfter'', JNum 569)],
          response_headers = [(''X-RateLimit-Remaining'', HeaderNumber (30001 / 60000)),
                              (''X-RateLimit-Reset'', HeaderInstant 631003)] \<rparr>,
        exhausted_state \<lparr> limiter := rateLimiter \<lparr> buckets := [''10.0.0.7'' \<mapsto> \<lparr> tokens = 1 / 2, lastRefill = 31000 \<rparr>] \<rparr> \<rparr>,
        [])"
    apply (simp only: POST_denied[OF d])
    apply (simp only: c snd_conv)
    apply (simp add: rate_limit_response_def getRemainingTokens_def soon_after_def rateLimiter_def
        new_TokenBucketRateLimiter_def Let_def ce ip)
    done
  with p show ?thesis by simp
qed

end
